theory Spec2Isabelle
  imports Complex_Main "HOL-Library.Monad_Syntax"
begin

section \<open>JavaScript string primitives used by the engine\<close>

text \<open>
  Strings are lists of code units. The model covers the code units 0..255 (Latin-1), which
  is what \<^typ>\<open>char\<close> holds.
\<close>

text \<open>White space as \<open>String.prototype.trim\<close>, the regular expression class \<open>\s\<close> and
  \<open>parseInt\<close> see it: TAB, LF, VT, FF, CR, SPACE and NO-BREAK SPACE.\<close>

definition isWhiteSpace :: "char \<Rightarrow> bool" where
  "isWhiteSpace c = ((of_char c :: nat) \<in> {9, 10, 11, 12, 13, 32, 160})"

definition trim :: "string \<Rightarrow> string" where
  "trim s = rev (dropWhile isWhiteSpace (rev (dropWhile isWhiteSpace s)))"

text \<open>\<open>String.prototype.toLowerCase\<close> on Latin-1: the letters A-Z and the accented capitals
  (0xC0-0xDE without the multiplication sign 0xD7) move up by 32.\<close>

definition toLowerChar :: "char \<Rightarrow> char" where
  "toLowerChar c =
     (let n = (of_char c :: nat)
      in if (65 \<le> n \<and> n \<le> 90) \<or> (192 \<le> n \<and> n \<le> 222 \<and> n \<noteq> 215)
         then char_of (n + 32) else c)"

definition toLowerCase :: "string \<Rightarrow> string" where
  "toLowerCase s = map toLowerChar s"

text \<open>\<open>s.includes(c)\<close> for a one-character needle.\<close>

definition includesChar :: "string \<Rightarrow> char \<Rightarrow> bool" where
  "includesChar s c = (c \<in> set s)"

text \<open>\<open>s.split(c)\<close> with a one-character string separator: cut at every occurrence; the
  empty string gives one empty piece.\<close>

function splitChar :: "char \<Rightarrow> string \<Rightarrow> string list" where
  "splitChar c s =
     (case dropWhile (\<lambda>x. x \<noteq> c) s of
        [] \<Rightarrow> [s]
      | _ # rest \<Rightarrow> takeWhile (\<lambda>x. x \<noteq> c) s # splitChar c rest)"
  by pat_completeness auto
termination
proof (relation "measure (\<lambda>(c, s). length s)")
  show "wf (measure (\<lambda>(c, s). length s))" by simp
next
  fix c :: char and s :: string and x21 :: char and rest :: string
  assume "dropWhile (\<lambda>x. x \<noteq> c) s = x21 # rest"
  then have "length (x21 # rest) \<le> length s"
    by (metis length_dropWhile_le)
  then show "((c, rest), (c, s)) \<in> measure (\<lambda>(c, s). length s)" by simp
qed

declare splitChar.simps [simp del]

text \<open>The separator class of the regular expression \<open>/[,\s]+/\<close>.\<close>

definition isSeparator :: "char \<Rightarrow> bool" where
  "isSeparator c = (c = CHR '','' \<or> isWhiteSpace c)"

text \<open>\<open>s.split(/[,\s]+/)\<close>: cut at every maximal run of separators. A separator at the
  start or at the end of the text leaves an empty piece there, and the empty text gives
  one empty piece.\<close>

function splitSeparators :: "string \<Rightarrow> string list" where
  "splitSeparators s =
     (let tok = takeWhile (\<lambda>x. \<not> isSeparator x) s;
          rest = dropWhile (\<lambda>x. \<not> isSeparator x) s
      in if rest = [] then [tok] else tok # splitSeparators (dropWhile isSeparator rest))"
  by pat_completeness auto
termination
proof (relation "measure length")
  show "wf (measure length)" by simp
next
  fix s tok rest :: string
  assume r: "rest = dropWhile (\<lambda>x. \<not> isSeparator x) s" and ne: "rest \<noteq> []"
  from ne have "isSeparator (hd rest)"
    unfolding r using hd_dropWhile [of "\<lambda>x. \<not> isSeparator x" s] by simp
  with ne have "length (dropWhile isSeparator rest) < length rest"
    by (cases rest) (simp_all add: le_imp_less_Suc length_dropWhile_le)
  moreover have "length rest \<le> length s"
    unfolding r by (rule length_dropWhile_le)
  ultimately show "(dropWhile isSeparator rest, s) \<in> measure length" by simp
qed

declare splitSeparators.simps [simp del]

section \<open>JavaScript numbers used by the engine\<close>

text \<open>
  The numbers the engine reads from text are doubles with an integer value, the two
  infinities and \<open>NaN\<close>. \<open>Finite n\<close> is the double whose value is the integer \<open>n\<close>; the
  negative zero is not told apart from zero (the engine compares, counts and prints, and
  none of these tells them apart). Equality of this type is the \<open>SameValueZero\<close> of
  \<open>Array.prototype.includes\<close> and of \<open>Map\<close> keys, and, away from \<open>NaN\<close>, the \<open>===\<close> of the
  source. List lengths and fixed scores are small integers; the weighted count and the
  mean score, which have fractions, are real numbers.
\<close>

datatype number = NaN | Finite int | Infinity | MinusInfinity

text \<open>The number of binary digits of a positive integer.\<close>

function bitLength :: "int \<Rightarrow> nat" where
  "bitLength n = (if n \<le> 0 then 0 else Suc (bitLength (n div 2)))"
  by pat_completeness auto
termination
  by (relation "measure nat") auto

declare bitLength.simps [simp del]

text \<open>The double nearest to an integer that is not negative, a tie going to the even
  significand: below \<open>2^53\<close> the integer itself, above it the leading 53 binary digits,
  rounded.\<close>

definition roundMagnitude :: "int \<Rightarrow> int" where
  "roundMagnitude m =
     (if m < 2 ^ 53 then m
      else
        (let e = bitLength m - 53;
             q = m div 2 ^ e;
             r = m mod 2 ^ e;
             half = 2 ^ (e - 1)
         in (if r > half \<or> (r = half \<and> odd q) then q + 1 else q) * 2 ^ e))"

text \<open>The Number value of a mathematical integer: the nearest double, and an infinity from
  \<open>2^1024\<close> on.\<close>

definition toNumber :: "int \<Rightarrow> number" where
  "toNumber x =
     (let m = roundMagnitude \<bar>x\<bar>
      in if m \<ge> 2 ^ 1024 then (if x < 0 then MinusInfinity else Infinity)
         else Finite (if x < 0 then - m else m))"

text \<open>\<open>i++\<close> on a number that is not \<open>NaN\<close>: one more, rounded to a double.\<close>

definition increment :: "number \<Rightarrow> number" where
  "increment i = (case i of Finite n \<Rightarrow> toNumber (n + 1) | other \<Rightarrow> other)"

text \<open>The comparisons \<open>a <= b\<close> and \<open>a < b\<close>; \<open>a >= b\<close> is \<open>b <= a\<close> and \<open>a > b\<close> is \<open>b < a\<close>.\<close>

definition lessEq :: "number \<Rightarrow> number \<Rightarrow> bool" where
  "lessEq a b =
     (case (a, b) of
        (Finite x, Finite y) \<Rightarrow> x \<le> y
      | (NaN, _) \<Rightarrow> False
      | (_, NaN) \<Rightarrow> False
      | (MinusInfinity, _) \<Rightarrow> True
      | (_, Infinity) \<Rightarrow> True
      | _ \<Rightarrow> False)"

definition less :: "number \<Rightarrow> number \<Rightarrow> bool" where
  "less a b =
     (case (a, b) of
        (Finite x, Finite y) \<Rightarrow> x < y
      | (NaN, _) \<Rightarrow> False
      | (_, NaN) \<Rightarrow> False
      | (MinusInfinity, MinusInfinity) \<Rightarrow> False
      | (MinusInfinity, _) \<Rightarrow> True
      | (Infinity, _) \<Rightarrow> False
      | (_, Infinity) \<Rightarrow> True
      | _ \<Rightarrow> False)"

section \<open>JavaScript arrays used by the engine\<close>

text \<open>
  An array holds at most \<open>2^32 - 1\<close> elements: \<open>push\<close> on a full array throws a
  \<open>RangeError\<close>. Nothing in the engine catches it, so a function that pushes returns an
  option, and \<open>None\<close> is the run that ends in the exception.
\<close>

definition push :: "'a list \<Rightarrow> 'a \<Rightarrow> 'a list option" where
  "push xs x = (if int (length xs) < 4294967295 then Some (xs @ [x]) else None)"

text \<open>\<open>xs.forEach(callback)\<close> for a callback that updates a state and may throw.\<close>

fun forEach :: "('s \<Rightarrow> 'a \<Rightarrow> 's option) \<Rightarrow> 's \<Rightarrow> 'a list \<Rightarrow> 's option" where
  "forEach f s [] = Some s"
| "forEach f s (x # xs) = (case f s x of None \<Rightarrow> None | Some s' \<Rightarrow> forEach f s' xs)"

text \<open>\<open>parseInt(s, 10)\<close>: skip leading white space, read an optional sign, then the longest
  run of decimal digits; no digit gives \<open>NaN\<close>. Whatever follows the digits is ignored.
  \<open>mathInt\<close> is the integer the digits denote, and the result is its Number value: the
  nearest double. (For a run of more than 20 significant digits the language lets an
  implementation replace the later digits by zeros before rounding; the model rounds
  the run as it is.)\<close>

definition isDigit :: "char \<Rightarrow> bool" where
  "isDigit c = (48 \<le> (of_char c :: nat) \<and> (of_char c :: nat) \<le> 57)"

definition digitValue :: "char \<Rightarrow> int" where
  "digitValue c = int (of_char c) - 48"

definition mathInt :: "string \<Rightarrow> int" where
  "mathInt ds = foldl (\<lambda>a c. 10 * a + digitValue c) 0 ds"

definition signedDecimal :: "string \<Rightarrow> number" where
  "signedDecimal s1 =
     (let neg = (s1 \<noteq> [] \<and> hd s1 = CHR ''-'');
          s2 = (if s1 \<noteq> [] \<and> (hd s1 = CHR ''-'' \<or> hd s1 = CHR ''+'') then tl s1 else s1);
          ds = takeWhile isDigit s2
      in if ds = [] then NaN
         else toNumber (if neg then - mathInt ds else mathInt ds))"

definition parseInt :: "string \<Rightarrow> number" where
  "parseInt s = signedDecimal (dropWhile isWhiteSpace s)"

section \<open>Scope and port parsers\<close>

text \<open>\<open>getCidrSize\<close> (analyzer.ts, lines 55-64). \<open>parts[1]\<close> is read with a pattern, so a
  missing second piece is \<open>undefined\<close>, which \<open>parseInt\<close> turns into \<open>NaN\<close>.\<close>

definition getCidrSize :: "string \<Rightarrow> number" where
  "getCidrSize addr =
     (let clean = toLowerCase (trim addr)
      in if clean = ''any'' \<or> clean = ''all'' \<or> clean = ''0.0.0.0/0'' \<or> clean = ''*''
         then Finite 0
         else if includesChar clean CHR ''/'' then
           (let parts = splitChar CHR ''/'' clean;
                cidr = (case parts of _ # p1 # _ \<Rightarrow> parseInt p1 | _ \<Rightarrow> NaN)
            in if cidr = NaN then Finite 32 else cidr)
         else Finite 32)"

text \<open>The loop \<open>for (let i = start; i <= end; i++) result.push(i)\<close>. Every turn pushes, so
  the loop ends: either the test fails, or the array is full and \<open>push\<close> throws. The
  second is what happens when \<open>i++\<close> no longer moves \<open>i\<close>, from \<open>2^53\<close> on.\<close>

function pushRange :: "number \<Rightarrow> number \<Rightarrow> number list \<Rightarrow> number list option" where
  "pushRange i end result =
     (if lessEq i end then
        (case push result i of
           None \<Rightarrow> None
         | Some result' \<Rightarrow> pushRange (increment i) end result')
      else Some result)"
  by pat_completeness auto
termination
proof (relation "measure (\<lambda>(i, end, result). 4294967295 - length result)")
  show "wf (measure (\<lambda>(i, end, result). 4294967295 - length result))" by simp
next
  fix i "end" :: number and result result' :: "number list"
  assume "push result i = Some result'"
  then have "length result < 4294967295 \<and> result' = result @ [i]"
    by (simp add: push_def split: if_splits)
  then show "((increment i, end, result'), (i, end, result))
      \<in> measure (\<lambda>(i, end, result). 4294967295 - length result)"
    by auto
qed

declare pushRange.simps [simp del]

text \<open>The body of \<open>parts.forEach(p => ...)\<close> in \<open>parsePorts\<close>, as a step on \<open>result\<close>.
  The destructuring \<open>[start, end]\<close> takes the first two pieces; a missing piece is
  \<open>undefined\<close>, for which \<open>isNaN\<close> holds.\<close>

definition portToken :: "number list \<Rightarrow> string \<Rightarrow> number list option" where
  "portToken result p =
     (if includesChar p CHR ''-'' then
        (let ns = map (\<lambda>x. parseInt (trim x)) (splitChar CHR ''-'' p);
             start = (case ns of a # _ \<Rightarrow> a | [] \<Rightarrow> NaN);
             end = (case ns of _ # b # _ \<Rightarrow> b | _ \<Rightarrow> NaN)
         in if start \<noteq> NaN \<and> end \<noteq> NaN then pushRange start end result else Some result)
      else
        (let parsed = parseInt p
         in if parsed \<noteq> NaN then push result parsed else Some result))"

text \<open>\<open>parsePorts\<close> (analyzer.ts, lines 66-87). The argument is optional because the first
  line tests it for falsiness: a missing text (\<open>undefined\<close>) and the empty text both leave
  at once. The wildcard sentinel is the number \<open>-1\<close>.\<close>

definition parsePorts :: "string option \<Rightarrow> number list option" where
  "parsePorts portStr =
     (case portStr of
        None \<Rightarrow> Some []
      | Some s \<Rightarrow>
          if s = [] then Some []
          else
            (let clean = toLowerCase (trim s)
             in if clean = ''any'' \<or> clean = ''all'' \<or> clean = ''*'' \<or> clean = ''0-65535''
                then Some [Finite (- 1)]
                else forEach portToken [] (splitSeparators clean)))"

section \<open>Data model (types.ts)\<close>

datatype Protocol = TCP | UDP | ICMP | ANY | OTHER_Protocol
datatype Action = ALLOW | DENY | OTHER_Action
datatype Direction = INBOUND | OUTBOUND | INTERNAL | UNKNOWN
datatype Severity = CRITICAL | HIGH | MEDIUM | LOW | INFORMATIONAL

datatype Category =
  Insecure_Port | Excessive_Exposure | Subnet_Scope | Protocol_Risk | Policy_Hygiene
  | Correlation_Error

text \<open>The \<open>port\<close> of a policy entry is a number like the parsed ports it is looked up
  with. The settings screen fills it with \<open>parseInt\<close> of a text of digits; a number with a
  fraction, which equals no parsed port, has no value here.\<close>

record InsecurePortSetting =
  port :: number
  label :: string
  criticality :: Severity
  whyInsecure :: string
  enabled_setting :: bool

text \<open>The field \<open>id\<close> is called \<open>id_rule\<close> here; \<open>originalRow\<close> (of type \<open>any\<close>, never read
  by the engine) is left out.\<close>

record FirewallRule =
  id_rule :: string
  name :: string
  source :: string
  destination :: string
  sourcePort :: string
  destinationPort :: string
  service :: string
  protocol :: Protocol
  action :: Action
  direction :: Direction
  zone :: "string option"
  enabled :: bool
  description :: "string option"

record AnalysisFinding =
  ruleId :: string
  ruleName :: string
  category :: Category
  score :: int
  severity :: Severity
  explanation :: string
  recommendation :: string

record AnalysisSummary =
  totalRules :: nat
  enabledRules :: nat
  criticalFindings :: nat
  highFindings :: nat
  mediumFindings :: nat
  lowFindings :: nat
  averageRiskScore :: int

section \<open>Knowledge base (analyzer.ts, lines 12-53)\<close>

definition ANY_ANY_explanation :: string where
  \<open>ANY_ANY_explanation = ''Critical security control failure. Allowing \'ANY\' source, destination, and service creates a \'Transparent Firewall\' state. This violates NIST SP 800-53 AC-4 (Information Flow Enforcement) and is the primary vector for MITRE ATT&CK T1133 (External Remote Services). It provides zero resistance to automated reconnaissance and lateral movement.''\<close>

definition ANY_ANY_recommendation :: string where
  \<open>ANY_ANY_recommendation = ''Immediate Remediation Required: Deconstruct the rule into specific micro-segments. Implement explicit \'Allow\' lists (CIS Control 4.4) for known-good IP ranges and services only.''\<close>

definition ANY_SOURCE_explanation :: string where
  \<open>ANY_SOURCE_explanation = ''Unrestricted Ingress Exposure. Source \'ANY\' implies the rule is reachable from any point in the routed network (often the entire internet). According to SANS/CWE-284, improper access control leads to unauthorized access. This exposure is mapped to MITRE T1595 (Active Scanning) as it provides a target for global scanning botnets.''\<close>

definition ANY_SOURCE_recommendation :: string where
  \<open>ANY_SOURCE_recommendation = ''Restrict the source to specific authorized CIDR blocks or Geofenced IP ranges. Implement MFA-backed VPN for remote access (NIST AC-17).''\<close>

definition ANY_DESTINATION_explanation :: string where
  \<open>ANY_DESTINATION_explanation = ''Blast Radius Escalation. Destination \'ANY\' permits traffic to potentially traverse into internal management subnets, sensitive database zones, or domain controllers. This bypasses the principle of \'Network Segmentation\' (NIST SP 800-125B) and facilitates MITRE T1021 (Remote Services) lateral movement paths.''\<close>

definition ANY_DESTINATION_recommendation :: string where
  \<open>ANY_DESTINATION_recommendation = ''Narrow the destination to the specific IP address or host group required. Audit destination zones to ensure traffic doesn\'t bridge high-trust and low-trust boundaries.''\<close>

definition LARGE_SUBNET_prefix :: string where
  \<open>LARGE_SUBNET_prefix = ''Excessive Blast Radius (/''\<close>

definition LARGE_SUBNET_suffix :: string where
  \<open>LARGE_SUBNET_suffix = ''). A network segment this large (/16 - /22) typically contains hundreds or thousands of hosts. In an enterprise environment, this broad trust relationship facilitates MITRE T1046 (Network Service Discovery) and massive lateral movement (T1021). Large subnets violate the Zero Trust Architecture (ZTA) principle defined in NIST SP 800-207.''\<close>

definition LARGE_SUBNET_recommendation :: string where
  \<open>LARGE_SUBNET_recommendation = ''Segment the network into smaller VLANs/Subnets (typically /24 or smaller). Use host-based firewalling or micro-segmentation to limit peer-to-peer communication within the subnet.''\<close>

definition PORT_SPECIFIC_21 :: string where
  \<open>PORT_SPECIFIC_21 = ''FTP: Legacy cleartext protocol. Susceptible to MITRE T1557.002 (Adversary-in-the-Middle) and CWE-319. Credentials and data are transmitted in plaintext, violating NIST SP 800-52 requirements for protecting sensitive information.''\<close>

definition PORT_SPECIFIC_23 :: string where
  \<open>PORT_SPECIFIC_23 = ''Telnet: Highly insecure administrative protocol. Replaced by SSH (NIST SP 800-53 IA-2). Plaintext transmission of management credentials allows easy interception via MITRE T1040 (Network Sniffing).''\<close>

definition PORT_SPECIFIC_445 :: string where
  \<open>PORT_SPECIFIC_445 = ''SMB/CIFS: Extremely high risk for lateral movement. Associated with MITRE T1021.002 and historic ransomware strains like WannaCry (EternalBlue). CIS Control 12 recommends blocking SMB at network boundaries to prevent NTLM relay attacks and remote file execution.''\<close>

definition PORT_SPECIFIC_3389 :: string where
  \<open>PORT_SPECIFIC_3389 = ''RDP: Primary entry point for ransomware. Mapped to MITRE T1133. RDP exposure without NLA or MFA is a critical finding under CIS Control 4. Default configuration allows for brute-force attacks (T1110) and potential exploit of BlueKeep-style vulnerabilities.''\<close>

definition PORT_SPECIFIC_22 :: string where
  \<open>PORT_SPECIFIC_22 = ''SSH: While secure, direct internet exposure is discouraged by CIS Benchmark 1.1. Brute-force (T1110) is common. Should be restricted to Jump Hosts (Bastions) only.''\<close>

definition PORT_SPECIFIC_80 :: string where
  \<open>PORT_SPECIFIC_80 = ''HTTP: Unencrypted web traffic (CWE-319). Allows for session hijacking and credential theft (T1557). OWASP recommends enforcing HTTPS (TLS 1.2+) globally.''\<close>

definition PORT_SPECIFIC_3306 :: string where
  \<open>PORT_SPECIFIC_3306 = ''MySQL: Database exposure. Facilitates MITRE T1190 (Exploit Public-Facing Application) and T1534 (Internal Spearphishing for DB access). Direct network access to databases should never cross security zones.''\<close>

definition PORT_SPECIFIC_1433 :: string where
  \<open>PORT_SPECIFIC_1433 = ''MSSQL: High-value target for data exfiltration (MITRE T1020). Risk of SQL injection escalation if the listener is exposed to untrusted segments.''\<close>

definition SHADOWING_explanation :: string where
  \<open>SHADOWING_explanation = ''Rule Shadowing (NIST SP 800-41): A critical redundancy issue where a rule is entirely eclipsed by a preceding rule with identical or broader criteria. Shadowed rules are technically unreachable. Performance Impact: Every redundant rule increases the policy lookup latency (linear O(n) search), consuming CPU cycles and memory. Maintenance Impact: Shadowing creates \'Configuration Sprawl\' and \'Technical Debt\', making it difficult for auditors to determine the intended security posture and increasing the risk of accidental misconfiguration during policy updates.''\<close>

definition SHADOWING_recommendation :: string where
  \<open>SHADOWING_recommendation = ''Policy De-duplication: Remove the shadowed rule. Consolidate overlapping rules into single entries using Object Groups (IP Sets/Service Groups) to maintain a lean, high-performance policy base (CIS Control 12).''\<close>

definition CONFLICT_explanation :: string where
  \<open>CONFLICT_explanation = ''Policy Logic Conflict (Race Condition): Two rules cover the same traffic flow but mandate different actions (Permit vs Deny). While most firewalls use a \'First-Match\' algorithm, conflicting rules indicate a lack of deterministic policy design. This ambiguity leads to \'Security Leakage\' where a change in rule order accidentally grants unauthorized access. It violates the principle of \'Explicit Intent\' and complicates incident response, forensic analysis, and compliance reporting.''\<close>

definition CONFLICT_recommendation :: string where
  \<open>CONFLICT_recommendation = ''Standardize Policy Order: Place \'Deny\' rules for specific subnets above \'Allow\' rules for broader segments (Ordered Filtering). Use an explicit \'Deny All\' (Default Deny) at the end of each zone pair to enforce strict boundary control.''\<close>

definition LATENT_RISK_explanation :: string where
  \<open>LATENT_RISK_explanation = ''Latent Exposure (Dormant High-Risk Rules): This rule is disabled but contains broad \'ANY\' criteria or exposes administrative services. According to CIS Control 12, inactive rules should be purged periodically. Disabled rules are often \'temporarily\' re-enabled during troubleshooting and forgotten, or leveraged by an adversary who has gained administrative control (MITRE T1562.001 - Impair Defenses) to quickly open backdoors without creating new rule logs.''\<close>

definition LATENT_RISK_recommendation :: string where
  \<open>LATENT_RISK_recommendation = ''Purge Policy Debt: If a rule has been disabled for more than 90 days (NIST best practice), it should be permanently deleted. Maintain a \'Clean Configuration\' to minimize the attack surface available for manipulation.''\<close>

definition BROAD_ACCESS_explanation :: string where
  \<open>BROAD_ACCESS_explanation = ''Broad protocol or port access (\'ANY\') detected. This increases the attack surface for specialized payloads and facilitates T1046 (Network Service Discovery).''\<close>

definition BROAD_ACCESS_recommendation :: string where
  \<open>BROAD_ACCESS_recommendation = ''Restrict the rule to only the required ports and protocols (CIS Control 4.4).''\<close>

definition GENERIC_PORT_prefix :: string where
  \<open>GENERIC_PORT_prefix = ''Protocol/Port ''\<close>

definition GENERIC_PORT_suffix :: string where
  \<open>GENERIC_PORT_suffix = '' is flagged as insecure or high-risk for enterprise environments. Access to this port increases the threat profile of the host and facilitates potential MITRE ATT&CK techniques.''\<close>

definition INSECURE_PORT_recommendation :: string where
  \<open>INSECURE_PORT_recommendation = ''Transition to secure alternatives (e.g., replace FTP with SFTP, Telnet with SSH). If the service is required, restrict access to a specific \'Trusted Admin\' subnet and implement deep packet inspection (DPI).''\<close>



text \<open>A number inside a template literal is printed by \<open>Number::toString\<close>: the shortest
  decimal digits that still round to the number (of two such, the nearer), then zeros up
  to 21 digits in all and an exponent beyond. Below \<open>2^53\<close> these are the digits of the
  integer itself. The functions below are for integers that are not negative. \<open>shortest x u\<close> looks for a multiple of the power of ten \<open>u\<close> that rounds
  to \<open>x\<close>, and goes on with a tenth of \<open>u\<close> when there is none.\<close>

function digitsOf :: "int \<Rightarrow> string" where
  "digitsOf n =
     (if n < 10 then [char_of (48 + n)] else digitsOf (n div 10) @ [char_of (48 + n mod 10)])"
  by pat_completeness auto
termination
  by (relation "measure nat") auto

declare digitsOf.simps [simp del]

function shortest :: "int \<Rightarrow> int \<Rightarrow> int" where
  "shortest x u =
     (if u \<le> 1 then x
      else
        (let lo = (x div u) * u;
             hi = lo + u;
             okLo = (roundMagnitude lo = x);
             okHi = (roundMagnitude hi = x)
         in if okLo \<and> okHi then
              (if x - lo < hi - x then lo
               else if hi - x < x - lo then hi
               else if even (x div u) then lo else hi)
            else if okLo then lo
            else if okHi then hi
            else shortest x (u div 10)))"
  by pat_completeness auto
termination
  by (relation "measure (\<lambda>(x, u). nat u)") auto

declare shortest.simps [simp del]

definition magnitudeToString :: "int \<Rightarrow> string" where
  "magnitudeToString m =
     (let ds = digitsOf (shortest m (10 ^ (length (digitsOf m) - 1)))
      in if length ds \<le> 21 then ds
         else
           (let significant = rev (dropWhile (\<lambda>c. c = CHR ''0'') (rev ds));
                exponent = ''e+'' @ digitsOf (int (length ds) - 1)
            in if length significant = 1 then significant @ exponent
               else hd significant # CHR ''.'' # tl significant @ exponent))"

definition numberToString :: "number \<Rightarrow> string" where
  "numberToString x =
     (case x of
        NaN \<Rightarrow> ''NaN''
      | Infinity \<Rightarrow> ''Infinity''
      | MinusInfinity \<Rightarrow> ''-Infinity''
      | Finite n \<Rightarrow>
          if n < 0 then CHR ''-'' # magnitudeToString (- n) else magnitudeToString n)"

definition LARGE_SUBNET_explanation :: "number \<Rightarrow> string" where
  "LARGE_SUBNET_explanation size' = LARGE_SUBNET_prefix @ numberToString size' @ LARGE_SUBNET_suffix"

text \<open>The table \<open>PORT_SPECIFIC\<close>, read with a number as the key.\<close>

definition PORT_SPECIFIC :: "number \<Rightarrow> string option" where
  "PORT_SPECIFIC p =
     (if p = Finite 21 then Some PORT_SPECIFIC_21
      else if p = Finite 23 then Some PORT_SPECIFIC_23
      else if p = Finite 445 then Some PORT_SPECIFIC_445
      else if p = Finite 3389 then Some PORT_SPECIFIC_3389
      else if p = Finite 22 then Some PORT_SPECIFIC_22
      else if p = Finite 80 then Some PORT_SPECIFIC_80
      else if p = Finite 3306 then Some PORT_SPECIFIC_3306
      else if p = Finite 1433 then Some PORT_SPECIFIC_1433
      else None)"

section \<open>The analysis (analyzer.ts, lines 89-268)\<close>

text \<open>Lines 93-94: the enabled settings, put into a map by port one after the other, so that
  a later setting replaces an earlier one for the same port.\<close>

definition activeInsecurePorts ::
  "InsecurePortSetting list \<Rightarrow> (number \<rightharpoonup> InsecurePortSetting)" where
  "activeInsecurePorts portSettings =
     foldl (\<lambda>m s. m(port s \<mapsto> s)) Map.empty (filter enabled_setting portSettings)"

text \<open>Block 1, lines 108-147 (\<open>ANY Rule Logic\<close>). The weighted count has a half in it, so it
  is a real number.\<close>

definition anyRuleLogic ::
  "FirewallRule \<Rightarrow> bool \<Rightarrow> bool \<Rightarrow> bool \<Rightarrow> bool \<Rightarrow> bool \<Rightarrow> AnalysisFinding list
    \<Rightarrow> AnalysisFinding list option" where
  "anyRuleLogic rule isAllow isAnySource isAnyDest isAnyProto hasAnyPort findings =
     (if isAllow \<and> (isAnySource \<or> isAnyDest \<or> isAnyProto \<or> hasAnyPort) then
        (let anyDimensions =
               (if isAnySource then 1 else 0) + (if isAnyDest then 1 else 0)
               + (if hasAnyPort then 1 else 0) + (if isAnyProto then 1 / 2 else (0::real));
             (severity', score', explanation', recommendation') =
               (if anyDimensions \<ge> 3 then
                  (CRITICAL, 100, ANY_ANY_explanation, ANY_ANY_recommendation)
                else if isAnySource then
                  (HIGH, 85, ANY_SOURCE_explanation, ANY_SOURCE_recommendation)
                else if isAnyDest then
                  (HIGH, 80, ANY_DESTINATION_explanation, ANY_DESTINATION_recommendation)
                else
                  (MEDIUM, 60, BROAD_ACCESS_explanation, BROAD_ACCESS_recommendation))
         in push findings
              \<lparr>ruleId = id_rule rule, ruleName = name rule, category = Excessive_Exposure,
               score = score', severity = severity', explanation = explanation',
               recommendation = recommendation'\<rparr>)
      else Some findings)"

text \<open>Block 2, lines 150-174 (\<open>Subnet Scope Analysis\<close>).\<close>

definition subnetScope ::
  "FirewallRule \<Rightarrow> bool \<Rightarrow> number \<Rightarrow> AnalysisFinding list \<Rightarrow> AnalysisFinding list option" where
  "subnetScope rule isAllow srcCidr findings =
     (if isAllow then
        (if lessEq srcCidr (Finite 16) \<and> less (Finite 0) srcCidr then
           push findings
             \<lparr>ruleId = id_rule rule, ruleName = name rule, category = Subnet_Scope,
              score = 80, severity = (if lessEq srcCidr (Finite 8) then CRITICAL else HIGH),
              explanation = LARGE_SUBNET_explanation srcCidr,
              recommendation = LARGE_SUBNET_recommendation\<rparr>
         else if lessEq (Finite 17) srcCidr \<and> lessEq srcCidr (Finite 22) then
           push findings
             \<lparr>ruleId = id_rule rule, ruleName = name rule, category = Subnet_Scope,
              score = 60, severity = HIGH,
              explanation = LARGE_SUBNET_explanation srcCidr,
              recommendation = LARGE_SUBNET_recommendation\<rparr>
         else Some findings)
      else Some findings)"

text \<open>Block 3, lines 177-195 (\<open>Insecure Ports\<close>): the body of \<open>ports.forEach(p => ...)\<close> as a
  step on \<open>findings\<close>, and the loop.\<close>

definition insecurePortStep ::
  "(number \<rightharpoonup> InsecurePortSetting) \<Rightarrow> FirewallRule \<Rightarrow> AnalysisFinding list \<Rightarrow> number
    \<Rightarrow> AnalysisFinding list option" where
  "insecurePortStep active rule findings p =
     (if p = Finite (- 1) then Some findings
      else
        (case active p of
           None \<Rightarrow> Some findings
         | Some setting \<Rightarrow>
             (let detailedRisk =
                    (case PORT_SPECIFIC p of
                       Some text \<Rightarrow> text
                     | None \<Rightarrow> GENERIC_PORT_prefix @ numberToString p @ GENERIC_PORT_suffix)
              in push findings
                   \<lparr>ruleId = id_rule rule, ruleName = name rule, category = Insecure_Port,
                    score = (if criticality setting = CRITICAL then 100
                             else if criticality setting = HIGH then 90 else 60),
                    severity = criticality setting,
                    explanation =
                      ''Service Identity: '' @ label setting @ '' (Port '' @ numberToString p
                      @ ''). '' @ detailedRisk @ '' Reference: '' @ whyInsecure setting @ ''.'',
                    recommendation = INSECURE_PORT_recommendation\<rparr>)))"

definition insecurePorts ::
  "(number \<rightharpoonup> InsecurePortSetting) \<Rightarrow> FirewallRule \<Rightarrow> bool \<Rightarrow> number list
    \<Rightarrow> AnalysisFinding list \<Rightarrow> AnalysisFinding list option" where
  "insecurePorts active rule isAllow ports findings =
     (if isAllow then forEach (insecurePortStep active rule) findings ports else Some findings)"

text \<open>Block 4, lines 198-251 (\<open>Policy Hygiene & Correlation\<close>). \<open>rules.slice(0, index)\<close> is
  \<open>take index rules\<close>, and \<open>find\<close> returns the first element that passes.\<close>

definition shadowedBy :: "FirewallRule list \<Rightarrow> nat \<Rightarrow> FirewallRule \<Rightarrow> FirewallRule option" where
  "shadowedBy rules index rule =
     List.find (\<lambda>prev.
        enabled prev \<and>
        action prev = action rule \<and>
        (source prev = source rule \<or> toLowerCase (source prev) = ''any'') \<and>
        (destination prev = destination rule \<or> toLowerCase (destination prev) = ''any'') \<and>
        (protocol prev = protocol rule \<or> protocol prev = ANY) \<and>
        (destinationPort prev = destinationPort rule
           \<or> toLowerCase (destinationPort prev) = ''any''))
       (take index rules)"

definition conflicting :: "FirewallRule list \<Rightarrow> nat \<Rightarrow> FirewallRule \<Rightarrow> FirewallRule option" where
  "conflicting rules index rule =
     List.find (\<lambda>prev.
        enabled prev \<and>
        action prev \<noteq> action rule \<and>
        source prev = source rule \<and>
        destination prev = destination rule \<and>
        destinationPort prev = destinationPort rule)
       (take index rules)"

definition shadowingFinding :: "FirewallRule \<Rightarrow> FirewallRule \<Rightarrow> AnalysisFinding" where
  "shadowingFinding rule by =
     \<lparr>ruleId = id_rule rule, ruleName = name rule, category = Policy_Hygiene,
      score = 20, severity = INFORMATIONAL,
      explanation = SHADOWING_explanation @ '' This specific rule is eclipsed by Rule ID: ''
                    @ id_rule by @ ''.'',
      recommendation = SHADOWING_recommendation\<rparr>"

definition conflictFinding :: "FirewallRule \<Rightarrow> FirewallRule \<Rightarrow> AnalysisFinding" where
  "conflictFinding rule other =
     \<lparr>ruleId = id_rule rule, ruleName = name rule, category = Correlation_Error,
      score = 50, severity = MEDIUM,
      explanation = CONFLICT_explanation @ '' A direct action conflict exists with Rule ID: ''
                    @ id_rule other @ ''.'',
      recommendation = CONFLICT_recommendation\<rparr>"

definition latentRiskFinding :: "FirewallRule \<Rightarrow> AnalysisFinding" where
  "latentRiskFinding rule =
     \<lparr>ruleId = id_rule rule, ruleName = name rule, category = Policy_Hygiene,
      score = 40, severity = LOW,
      explanation = LATENT_RISK_explanation,
      recommendation = LATENT_RISK_recommendation\<rparr>"

definition policyHygiene ::
  "FirewallRule list \<Rightarrow> nat \<Rightarrow> FirewallRule \<Rightarrow> bool \<Rightarrow> number \<Rightarrow> bool \<Rightarrow> AnalysisFinding list
    \<Rightarrow> AnalysisFinding list option" where
  "policyHygiene rules index rule isAllow srcCidr hasAnyPort hygiene0 =
     do {
       hygiene1 \<leftarrow>
         (case shadowedBy rules index rule of
            Some by \<Rightarrow>
              if enabled rule then push hygiene0 (shadowingFinding rule by) else Some hygiene0
          | None \<Rightarrow> Some hygiene0);
       hygiene2 \<leftarrow>
         (case conflicting rules index rule of
            Some other \<Rightarrow>
              if enabled rule then push hygiene1 (conflictFinding rule other) else Some hygiene1
          | None \<Rightarrow> Some hygiene1);
       if \<not> enabled rule \<and> isAllow then
         (if srcCidr = Finite 0 \<or> hasAnyPort then push hygiene2 (latentRiskFinding rule)
          else Some hygiene2)
       else Some hygiene2
     }"

text \<open>The body of \<open>rules.forEach((rule, index) => ...)\<close>, lines 96-252, as a step on the two
  output lists. The port text is parsed first; when that throws, so does the step.\<close>

definition ruleBody ::
  "(number \<rightharpoonup> InsecurePortSetting) \<Rightarrow> FirewallRule list
    \<Rightarrow> AnalysisFinding list \<times> AnalysisFinding list \<Rightarrow> FirewallRule \<times> nat
    \<Rightarrow> (AnalysisFinding list \<times> AnalysisFinding list) option" where
  "ruleBody active rules st ri =
     (let (findings0, hygiene0) = st;
          (rule, index) = ri
      in do {
           ports \<leftarrow> parsePorts (Some (destinationPort rule));
           let srcCidr = getCidrSize (source rule);
           let dstCidr = getCidrSize (destination rule);
           let isAllow = (action rule = ALLOW);
           let hasAnyPort = (Finite (- 1) \<in> set ports);
           let isAnySource = (srcCidr = Finite 0);
           let isAnyDest = (dstCidr = Finite 0);
           let isAnyProto = (protocol rule = ANY);
           findings1 \<leftarrow>
             anyRuleLogic rule isAllow isAnySource isAnyDest isAnyProto hasAnyPort findings0;
           findings2 \<leftarrow> subnetScope rule isAllow srcCidr findings1;
           findings3 \<leftarrow> insecurePorts active rule isAllow ports findings2;
           hygiene1 \<leftarrow> policyHygiene rules index rule isAllow srcCidr hasAnyPort hygiene0;
           Some (findings3, hygiene1)
         })"

text \<open>\<open>Math.round\<close>: the nearest integer, a tie going up.\<close>

definition Math_round :: "real \<Rightarrow> int" where
  "Math_round x = \<lfloor>x + 1 / 2\<rfloor>"

text \<open>The summary, lines 258-266.\<close>

definition summarize :: "FirewallRule list \<Rightarrow> AnalysisFinding list \<Rightarrow> AnalysisSummary" where
  "summarize rules findings =
     \<lparr>totalRules = length rules,
      enabledRules = length (filter enabled rules),
      criticalFindings = length (filter (\<lambda>f. severity f = CRITICAL) findings),
      highFindings = length (filter (\<lambda>f. severity f = HIGH) findings),
      mediumFindings = length (filter (\<lambda>f. severity f = MEDIUM) findings),
      lowFindings = length (filter (\<lambda>f. severity f = LOW) findings),
      averageRiskScore =
        (if length findings > 0
         then Math_round (real_of_int (foldl (\<lambda>a b. a + score b) 0 findings)
                          / real (length findings))
         else 0)\<rparr>"

text \<open>The result record (types.ts, lines 42-55) comes last, because its field names are
  the names of the local variables above. In \<open>analyzeRules\<close> the parameter \<open>rules\<close> is
  written \<open>rs\<close>, and the two output lists \<open>fs\<close> and \<open>hs\<close>. The result is \<open>None\<close> when the run
  ends in an exception.\<close>

record AnalysisResults =
  rules :: "FirewallRule list"
  findings :: "AnalysisFinding list"
  hygiene :: "AnalysisFinding list"
  summary :: AnalysisSummary

definition analyzeRules ::
  "FirewallRule list \<Rightarrow> InsecurePortSetting list \<Rightarrow> AnalysisResults option" where
  "analyzeRules rs portSettings =
     (let active = activeInsecurePorts portSettings
      in do {
           (fs, hs) \<leftarrow> forEach (ruleBody active rs) ([], []) (zip rs [0 ..< length rs]);
           Some \<lparr>rules = rs, findings = fs, hygiene = hs, summary = summarize rs fs\<rparr>
         })"

section \<open>Reference definitions\<close>

subsection \<open>Integers read from text\<close>

text \<open>The text before the first occurrence of a character, and the text after it.\<close>

definition beforeFirst :: "char \<Rightarrow> string \<Rightarrow> string" where
  "beforeFirst c s = takeWhile (\<lambda>x. x \<noteq> c) s"

definition afterFirst :: "char \<Rightarrow> string \<Rightarrow> string" where
  "afterFirst c s = tl (dropWhile (\<lambda>x. x \<noteq> c) s)"

text \<open>The mathematical integer at the start of a text, before any rounding: leading white space
  is skipped, a sign may come first, and the digits run as far as they go. A text with no
  digit there has no integer.\<close>

definition readSigned :: "string \<Rightarrow> int option" where
  "readSigned s1 =
     (let neg = (s1 \<noteq> [] \<and> hd s1 = CHR ''-'');
          s2 = (if s1 \<noteq> [] \<and> (hd s1 = CHR ''-'' \<or> hd s1 = CHR ''+'') then tl s1 else s1);
          ds = takeWhile isDigit s2
      in if ds = [] then None else Some (if neg then - mathInt ds else mathInt ds))"

definition readInt :: "string \<Rightarrow> int option" where
  "readInt s = readSigned (dropWhile isWhiteSpace s)"

text \<open>The Number value of what was read: \<open>NaN\<close> for nothing, the nearest double otherwise.\<close>

definition numberOf :: "int option \<Rightarrow> number" where
  "numberOf r = (case r of None \<Rightarrow> NaN | Some n \<Rightarrow> toNumber n)"

text \<open>The scope of an address in one pass over the text: the part after the first \<open>/\<close> is read
  as above.\<close>

definition getCidrSize_read :: "string \<Rightarrow> number" where
  "getCidrSize_read addr =
     (let clean = toLowerCase (trim addr)
      in if clean \<in> {''any'', ''all'', ''*'', ''0.0.0.0/0''} then Finite 0
         else if CHR ''/'' \<in> set clean then
           (case readInt (afterFirst CHR ''/'' clean) of
              None \<Rightarrow> Finite 32
            | Some n \<Rightarrow> toNumber n)
         else Finite 32)"

subsection \<open>The port list of a text, in the words of the specification\<close>

text \<open>The ports of one piece: every integer of an inclusive range, a single integer, or nothing
  when a number does not parse. These are mathematical integers and the list has any
  length.\<close>

definition tokenPorts :: "string \<Rightarrow> int list" where
  "tokenPorts p =
     (if CHR ''-'' \<in> set p then
        (case (readInt (beforeFirst CHR ''-'' p),
               readInt (beforeFirst CHR ''-'' (afterFirst CHR ''-'' p))) of
           (Some a, Some b) \<Rightarrow> [a..b]
         | _ \<Rightarrow> [])
      else (case readInt p of Some n \<Rightarrow> [n] | None \<Rightarrow> []))"

text \<open>The port list of section 4.2: no ports for a missing or empty text, the sentinel \<open>-1\<close> alone
  for a wildcard token, and otherwise the ports of the pieces, in order.\<close>

definition parsePorts_spec :: "string option \<Rightarrow> int list" where
  "parsePorts_spec portStr =
     (case portStr of
        None \<Rightarrow> []
      | Some s \<Rightarrow>
          if s = [] then []
          else if toLowerCase (trim s) \<in> {''any'', ''all'', ''*'', ''0-65535''} then [- 1]
          else concat (map tokenPorts (splitSeparators (toLowerCase (trim s)))))"

text \<open>The numbers a piece names: both ends of a range, or its single number.\<close>

definition tokenBounds :: "string \<Rightarrow> int list" where
  "tokenBounds p =
     (if CHR ''-'' \<in> set p then
        (case (readInt (beforeFirst CHR ''-'' p),
               readInt (beforeFirst CHR ''-'' (afterFirst CHR ''-'' p))) of
           (Some a, Some b) \<Rightarrow> [a, b]
         | _ \<Rightarrow> [])
      else (case readInt p of Some n \<Rightarrow> [n] | None \<Rightarrow> []))"

text \<open>A port text fits when every number it names is below \<open>2^53\<close> in magnitude, so that it is
  a double and \<open>i++\<close> moves it, and its ports are at most \<open>2^32 - 1\<close> together, so that one
  array holds them.\<close>

definition portsFit :: "string \<Rightarrow> bool" where
  "portsFit s =
     (let pieces = splitSeparators (toLowerCase (trim s))
      in list_all (\<lambda>p. list_all (\<lambda>n. \<bar>n\<bar> < 2 ^ 53) (tokenBounds p)) pieces
         \<and> int (length (concat (map tokenPorts pieces))) \<le> 4294967295)"

subsection \<open>What one pass of the loop body adds\<close>

text \<open>A list as an array: there is none beyond \<open>2^32 - 1\<close> elements.\<close>

definition guard :: "'a list \<Rightarrow> 'a list option" where
  "guard xs = (if int (length xs) \<le> 4294967295 then Some xs else None)"

text \<open>The parsed destination ports of a rule, when the parser returns them.\<close>

definition portsOf :: "FirewallRule \<Rightarrow> number list" where
  "portsOf r = (case parsePorts (Some (destinationPort r)) of Some ports \<Rightarrow> ports | None \<Rightarrow> [])"

text \<open>What each block adds for one rule, started on an empty list: block 1, block 2, the
  callback of block 3 at one port, and block 3.\<close>

definition exposurePart :: "FirewallRule \<Rightarrow> AnalysisFinding list" where
  "exposurePart r =
     (case anyRuleLogic r (action r = ALLOW) (getCidrSize (source r) = Finite 0)
             (getCidrSize (destination r) = Finite 0) (protocol r = ANY)
             (Finite (- 1) \<in> set (portsOf r)) [] of
        Some fs \<Rightarrow> fs
      | None \<Rightarrow> [])"

definition subnetPart :: "FirewallRule \<Rightarrow> AnalysisFinding list" where
  "subnetPart r =
     (case subnetScope r (action r = ALLOW) (getCidrSize (source r)) [] of
        Some fs \<Rightarrow> fs
      | None \<Rightarrow> [])"

definition portStepPart ::
  "(number \<rightharpoonup> InsecurePortSetting) \<Rightarrow> FirewallRule \<Rightarrow> number \<Rightarrow> AnalysisFinding list" where
  "portStepPart active r p =
     (case insecurePortStep active r [] p of Some fs \<Rightarrow> fs | None \<Rightarrow> [])"

definition portPart ::
  "(number \<rightharpoonup> InsecurePortSetting) \<Rightarrow> FirewallRule \<Rightarrow> AnalysisFinding list" where
  "portPart active r =
     (if action r = ALLOW then concat (map (portStepPart active r) (portsOf r)) else [])"

text \<open>What the three hygiene checks add for the rule at index \<open>i\<close>.\<close>

definition shadowPart :: "FirewallRule list \<Rightarrow> nat \<Rightarrow> AnalysisFinding list" where
  "shadowPart rs i =
     (case shadowedBy rs i (rs ! i) of
        Some by \<Rightarrow> if enabled (rs ! i) then [shadowingFinding (rs ! i) by] else []
      | None \<Rightarrow> [])"

definition conflictPart :: "FirewallRule list \<Rightarrow> nat \<Rightarrow> AnalysisFinding list" where
  "conflictPart rs i =
     (case conflicting rs i (rs ! i) of
        Some other \<Rightarrow> if enabled (rs ! i) then [conflictFinding (rs ! i) other] else []
      | None \<Rightarrow> [])"

definition latentPart :: "FirewallRule \<Rightarrow> AnalysisFinding list" where
  "latentPart r =
     (if \<not> enabled r \<and> action r = ALLOW
         \<and> (getCidrSize (source r) = Finite 0 \<or> Finite (- 1) \<in> set (portsOf r))
      then [latentRiskFinding r] else [])"

text \<open>The scoring findings of one rule, the hygiene findings of one index, and both lists for
  a whole rule list.\<close>

definition ruleFindings ::
  "(number \<rightharpoonup> InsecurePortSetting) \<Rightarrow> FirewallRule \<Rightarrow> AnalysisFinding list" where
  "ruleFindings active r = exposurePart r @ subnetPart r @ portPart active r"

definition ruleHygiene :: "FirewallRule list \<Rightarrow> nat \<Rightarrow> AnalysisFinding list" where
  "ruleHygiene rs i = shadowPart rs i @ conflictPart rs i @ latentPart (rs ! i)"

definition allFindings :: "FirewallRule list \<Rightarrow> InsecurePortSetting list \<Rightarrow> AnalysisFinding list" where
  "allFindings rs ps = concat (map (ruleFindings (activeInsecurePorts ps)) rs)"

definition allHygiene :: "FirewallRule list \<Rightarrow> AnalysisFinding list" where
  "allHygiene rs = concat (map (ruleHygiene rs) [0 ..< length rs])"

text \<open>One pass of the loop body, for the rule at index \<open>i\<close>: it throws when the port text
  does, or when one of its two lists fills up, and appends otherwise.\<close>

definition bodyResult ::
  "(number \<rightharpoonup> InsecurePortSetting) \<Rightarrow> FirewallRule list
    \<Rightarrow> AnalysisFinding list \<times> AnalysisFinding list \<Rightarrow> nat
    \<Rightarrow> (AnalysisFinding list \<times> AnalysisFinding list) option" where
  "bodyResult act rs st i =
     (if parsePorts (Some (destinationPort (rs ! i))) = None then None
      else guard (fst st @ ruleFindings act (rs ! i)) \<bind> (\<lambda>fs'.
           guard (snd st @ ruleHygiene rs i) \<bind> (\<lambda>hs'. Some (fs', hs'))))"

text \<open>A run returns exactly when every port text is parsed and neither list outgrows an
  array.\<close>

definition returns :: "FirewallRule list \<Rightarrow> InsecurePortSetting list \<Rightarrow> bool" where
  "returns rs ps =
     (list_all (\<lambda>r. parsePorts (Some (destinationPort r)) \<noteq> None) rs
      \<and> int (length (allFindings rs ps)) \<le> 4294967295
      \<and> int (length (allHygiene rs)) \<le> 4294967295)"

text \<open>A condition on the rules alone under which a run returns: every port text fits, and
  the arrays have room for two findings per rule and one per port, and for three hygiene
  findings per rule.\<close>

definition withinLimits :: "FirewallRule list \<Rightarrow> bool" where
  "withinLimits rs =
     (list_all (\<lambda>r. portsFit (destinationPort r)) rs
      \<and> int (sum_list (map (\<lambda>r. 2 + length (parsePorts_spec (Some (destinationPort r)))) rs))
          \<le> 4294967295
      \<and> 3 * int (length rs) \<le> 4294967295)"

subsection \<open>Findings expected by the specification\<close>

text \<open>What the claims say of a finding: the rule it is about, its severity and its score; for
  hygiene findings also the category and the explanation, which names the other rule.\<close>

definition brief :: "AnalysisFinding \<Rightarrow> string \<times> Severity \<times> int" where
  "brief f = (ruleId f, severity f, score f)"

definition detail :: "AnalysisFinding \<Rightarrow> string \<times> Category \<times> Severity \<times> int \<times> string" where
  "detail f = (ruleId f, category f, severity f, score f, explanation f)"

text \<open>A classification, or none, as the list of findings it stands for.\<close>

definition classified :: "FirewallRule \<Rightarrow> (Severity \<times> int) option \<Rightarrow> (string \<times> Severity \<times> int) list" where
  "classified r c = (case c of None \<Rightarrow> [] | Some (sv, sc) \<Rightarrow> [(id_rule r, sv, sc)])"

text \<open>The Excessive Exposure classification of a rule (section 4.3), first match wins.\<close>

definition exposureClass :: "FirewallRule \<Rightarrow> (Severity \<times> int) option" where
  "exposureClass r =
     (let anySource = (getCidrSize (source r) = Finite 0);
          anyDest = (getCidrSize (destination r) = Finite 0);
          anyProto = (protocol r = ANY);
          hasAnyPort = (Finite (- 1) \<in> set (portsOf r));
          w = (if anySource then 1 else 0) + (if anyDest then 1 else 0)
              + (if hasAnyPort then 1 else 0) + (if anyProto then 1 / 2 else (0::real))
      in if action r = ALLOW \<and> (anySource \<or> anyDest \<or> anyProto \<or> hasAnyPort) then
           Some (if w \<ge> 3 then (CRITICAL, 100)
                 else if anySource then (HIGH, 85)
                 else if anyDest then (HIGH, 80)
                 else (MEDIUM, 60))
         else None)"

text \<open>The Subnet Scope classification of a rule (section 4.3), on the source scope.\<close>

definition subnetClass :: "FirewallRule \<Rightarrow> (Severity \<times> int) option" where
  "subnetClass r =
     (case getCidrSize (source r) of
        Finite s \<Rightarrow>
          if action r = ALLOW \<and> 0 < s \<and> s \<le> 22 then
            Some (if s \<le> 8 then (CRITICAL, 80) else if s \<le> 16 then (HIGH, 80) else (HIGH, 60))
          else None
      | _ \<Rightarrow> None)"

text \<open>The enabled policy entry for exactly this port: the last one, when the policy lists
  several.\<close>

definition policyEntry :: "InsecurePortSetting list \<Rightarrow> number \<Rightarrow> InsecurePortSetting option" where
  "policyEntry ps p = List.find (\<lambda>s. enabled_setting s \<and> port s = p) (rev ps)"

text \<open>The Insecure Port findings of a rule (section 4.3), one per port of its parsed list
  that is no wildcard and has an enabled policy entry.\<close>

definition portFindings :: "InsecurePortSetting list \<Rightarrow> FirewallRule \<Rightarrow> (string \<times> Severity \<times> int) list" where
  "portFindings ps r =
     (if action r = ALLOW then
        concat (map (\<lambda>p. if p = Finite (- 1) then []
                        else case policyEntry ps p of
                               None \<Rightarrow> []
                             | Some e \<Rightarrow>
                                 [(id_rule r, criticality e,
                                   if criticality e = CRITICAL then 100
                                   else if criticality e = HIGH then 90 else 60)])
                  (portsOf r))
      else [])"

text \<open>An earlier rule contradicts a rule (section 4.4, conflict): it is enabled, has another
  action, and the same source, destination and destination port text.\<close>

definition contradicts :: "FirewallRule \<Rightarrow> FirewallRule \<Rightarrow> bool" where
  "contradicts prev rule =
     (enabled prev \<and> action prev \<noteq> action rule \<and> source prev = source rule
      \<and> destination prev = destination rule
      \<and> destinationPort prev = destinationPort rule)"

text \<open>The first index below \<open>i\<close> that passes a test.\<close>

definition firstEarlier :: "(nat \<Rightarrow> bool) \<Rightarrow> nat \<Rightarrow> nat option" where
  "firstEarlier Q i = (case filter Q [0 ..< i] of [] \<Rightarrow> None | j # _ \<Rightarrow> Some j)"

text \<open>The conflict finding expected at an index, and the latent-risk finding expected for a
  rule.\<close>

definition conflictExpected ::
  "FirewallRule list \<Rightarrow> nat \<Rightarrow> (string \<times> Category \<times> Severity \<times> int \<times> string) list" where
  "conflictExpected rs i =
     (if enabled (rs ! i) then
        (case firstEarlier (\<lambda>j. contradicts (rs ! j) (rs ! i)) i of
           None \<Rightarrow> []
         | Some j \<Rightarrow>
             [(id_rule (rs ! i), Correlation_Error, MEDIUM, 50,
               CONFLICT_explanation @ '' A direct action conflict exists with Rule ID: ''
               @ id_rule (rs ! j) @ ''.'')])
      else [])"

definition latentExpected :: "FirewallRule \<Rightarrow> (string \<times> Category \<times> Severity \<times> int) list" where
  "latentExpected r =
     (if \<not> enabled r \<and> action r = ALLOW
         \<and> (getCidrSize (source r) = Finite 0 \<or> Finite (- 1) \<in> set (portsOf r))
      then [(id_rule r, Policy_Hygiene, LOW, 40)] else [])"

section \<open>Example inputs\<close>

text \<open>An enabled ALLOW rule between two hosts on one port, which yields no finding by itself;
  the examples below change it field by field.\<close>

definition baseRule :: FirewallRule where
  "baseRule =
     \<lparr>id_rule = ''R'', name = ''rule'', source = ''10.0.0.5'', destination = ''10.0.0.9'',
      sourcePort = ''any'', destinationPort = ''443'', service = ''https'', protocol = TCP,
      action = ALLOW, direction = INBOUND, zone = None, enabled = True, description = None\<rparr>"

text \<open>The default policy entry for port 445.\<close>

definition smbSetting :: InsecurePortSetting where
  "smbSetting =
     \<lparr>port = Finite 445, label = ''SMB'', criticality = HIGH,
      whyInsecure = ''Ransomware, lateral movement'', enabled_setting = True\<rparr>"

text \<open>Three rules whose scoring findings are CRITICAL/100, HIGH/80 and MEDIUM/60.\<close>

definition threeRules :: "FirewallRule list" where
  "threeRules =
     [baseRule\<lparr>id_rule := ''A'', source := ''any'', destination := ''any'',
               destinationPort := ''any''\<rparr>,
      baseRule\<lparr>id_rule := ''B'', destination := ''any''\<rparr>,
      baseRule\<lparr>id_rule := ''C'', protocol := ANY\<rparr>]"

text \<open>Three rules from a /8, a /17 and a /24.\<close>

definition subnetRules :: "FirewallRule list" where
  "subnetRules =
     [baseRule\<lparr>id_rule := ''A'', source := ''10.0.0.0/8''\<rparr>,
      baseRule\<lparr>id_rule := ''B'', source := ''172.16.0.0/17''\<rparr>,
      baseRule\<lparr>id_rule := ''C'', source := ''192.168.1.0/24''\<rparr>]"

text \<open>An ALLOW rule to the ports 443 and 445, and a DENY rule to port 445.\<close>

definition portRules :: "FirewallRule list" where
  "portRules =
     [baseRule\<lparr>id_rule := ''A'', destinationPort := ''443, 445''\<rparr>,
      baseRule\<lparr>id_rule := ''D'', action := DENY, destinationPort := ''445''\<rparr>]"

text \<open>The broad rule A and the narrow rule B of the shadowing example, and A with the source
  written \<open>*\<close>.\<close>

definition broadRule :: FirewallRule where
  "broadRule =
     baseRule\<lparr>id_rule := ''A'', source := ''any'', destination := ''any'',
              destinationPort := ''any''\<rparr>"

definition narrowRule :: FirewallRule where
  "narrowRule = baseRule\<lparr>id_rule := ''B'', source := ''10.0.0.0/24'', destination := ''any''\<rparr>"

definition starRule :: FirewallRule where
  "starRule = broadRule\<lparr>source := ''*''\<rparr>"

text \<open>Two enabled rules with the same source, destination and port and opposite actions.\<close>

definition allowRule :: FirewallRule where
  "allowRule = baseRule\<lparr>id_rule := ''A''\<rparr>"

definition denyRule :: FirewallRule where
  "denyRule = baseRule\<lparr>id_rule := ''D'', action := DENY\<rparr>"

text \<open>Five rules for the latent-risk check: A disabled with any source, B disabled and narrow,
  C enabled with any source, D disabled with the word \<open>any\<close> inside a port list, E
  disabled with the port text \<open>*\<close>.\<close>

definition latentRules :: "FirewallRule list" where
  "latentRules =
     [baseRule\<lparr>id_rule := ''A'', enabled := False, source := ''any''\<rparr>,
      baseRule\<lparr>id_rule := ''B'', enabled := False\<rparr>,
      baseRule\<lparr>id_rule := ''C'', source := ''any''\<rparr>,
      baseRule\<lparr>id_rule := ''D'', enabled := False, destinationPort := ''80, any''\<rparr>,
      baseRule\<lparr>id_rule := ''E'', enabled := False, destinationPort := ''*''\<rparr>]"

section \<open>The parsers\<close>

subsection \<open>Numbers\<close>

lemma roundMagnitude_small: "m < 2 ^ 53 \<Longrightarrow> roundMagnitude m = m"
  by (simp add: roundMagnitude_def)

lemma roundMagnitude_2_53: "roundMagnitude (2 ^ 53) = 2 ^ 53"
  by code_simp

lemma roundMagnitude_exact: "m \<le> 2 ^ 53 \<Longrightarrow> roundMagnitude m = m"
  using roundMagnitude_small [of m] roundMagnitude_2_53 by (cases "m = 2 ^ 53") simp_all

lemma toNumber_exact:
  assumes "\<bar>x\<bar> \<le> 2 ^ 53"
  shows "toNumber x = Finite x"
proof -
  have r: "roundMagnitude \<bar>x\<bar> = \<bar>x\<bar>"
    using assms by (rule roundMagnitude_exact)
  have "(2::int) ^ 53 < 2 ^ 1024" by simp
  with assms have "\<not> \<bar>x\<bar> \<ge> 2 ^ 1024" by linarith
  then show ?thesis
    unfolding toNumber_def Let_def r by (simp add: abs_if)
qed

lemma toNumber_not_NaN: "toNumber x \<noteq> NaN"
  by (simp add: toNumber_def Let_def)

lemma increment_exact: "\<bar>n\<bar> < 2 ^ 53 \<Longrightarrow> increment (Finite n) = Finite (n + 1)"
proof -
  assume "\<bar>n\<bar> < 2 ^ 53"
  then have "\<bar>n + 1\<bar> \<le> 2 ^ 53" by linarith
  then show ?thesis by (simp add: increment_def toNumber_exact)
qed

lemma lessEq_Finite [simp]: "lessEq (Finite a) (Finite b) = (a \<le> b)"
  by (simp add: lessEq_def)

lemma less_Finite [simp]: "less (Finite a) (Finite b) = (a < b)"
  by (simp add: less_def)

lemma push_Some: "int (length xs) < 4294967295 \<Longrightarrow> push xs x = Some (xs @ [x])"
  by (simp add: push_def)

lemma push_SomeD: "push xs x = Some ys \<Longrightarrow> ys = xs @ [x]"
  by (simp add: push_def split: if_splits)

lemma push_Nil: "push [] x = Some [x]"
  by (simp add: push_def)

subsection \<open>Reading integers\<close>

lemma splitChar_none: "c \<notin> set s \<Longrightarrow> splitChar c s = [s]"
proof -
  assume "c \<notin> set s"
  then have d: "dropWhile (\<lambda>x. x \<noteq> c) s = []" by (induction s) auto
  show ?thesis by (subst splitChar.simps) (simp only: d list.case)
qed

lemma dropWhile_neq_Cons: "c \<in> set s \<Longrightarrow> dropWhile (\<lambda>x. x \<noteq> c) s = c # afterFirst c s"
  by (induction s) (auto simp: afterFirst_def)

lemma splitChar_some:
  "c \<in> set s \<Longrightarrow> splitChar c s = beforeFirst c s # splitChar c (afterFirst c s)"
  by (subst splitChar.simps) (simp add: dropWhile_neq_Cons beforeFirst_def)

lemma splitChar_hd: "\<exists>ts. splitChar c s = beforeFirst c s # ts"
proof (cases "c \<in> set s")
  case True
  then show ?thesis by (simp add: splitChar_some)
next
  case False
  then have t: "takeWhile (\<lambda>x. x \<noteq> c) s = s" by (induction s) auto
  have "splitChar c s = [s]" using False by (rule splitChar_none)
  then show ?thesis unfolding beforeFirst_def t by blast
qed

lemma splitChar_two:
  "c \<in> set s \<Longrightarrow> \<exists>ts. splitChar c s = beforeFirst c s # beforeFirst c (afterFirst c s) # ts"
  using splitChar_hd [of c "afterFirst c s"] by (auto simp: splitChar_some)

lemma dropWhile_takeWhile_commute:
  "(\<And>x. P x \<Longrightarrow> Q x) \<Longrightarrow> dropWhile P (takeWhile Q s) = takeWhile Q (dropWhile P s)"
  by (induction s) auto

lemma takeWhile_takeWhile_imp:
  "(\<And>x. P x \<Longrightarrow> Q x) \<Longrightarrow> takeWhile P (takeWhile Q s) = takeWhile P s"
  by (induction s) auto

lemma isWhiteSpace_not_slash: "isWhiteSpace x \<Longrightarrow> x \<noteq> CHR ''/''"
  by (auto simp: isWhiteSpace_def)

lemma isDigit_not_slash: "isDigit x \<Longrightarrow> x \<noteq> CHR ''/''"
  by (auto simp: isDigit_def)

lemma readSigned_before_slash:
  "readSigned (takeWhile (\<lambda>x. x \<noteq> CHR ''/'') t) = readSigned t"
proof -
  let ?Q = "\<lambda>x. x \<noteq> CHR ''/''"
  have d: "takeWhile isDigit (takeWhile ?Q u) = takeWhile isDigit u" for u
    by (rule takeWhile_takeWhile_imp) (rule isDigit_not_slash)
  show ?thesis
  proof (cases t)
    case Nil
    then show ?thesis by simp
  next
    case (Cons h u)
    show ?thesis
    proof (cases "h = CHR ''/''")
      case True
      with Cons show ?thesis by (simp add: readSigned_def isDigit_def)
    next
      case False
      with Cons show ?thesis by (simp add: readSigned_def d Let_def)
    qed
  qed
qed

lemma readInt_beforeFirst_slash: "readInt (beforeFirst CHR ''/'' s) = readInt s"
proof -
  have "dropWhile isWhiteSpace (takeWhile (\<lambda>x. x \<noteq> CHR ''/'') s)
        = takeWhile (\<lambda>x. x \<noteq> CHR ''/'') (dropWhile isWhiteSpace s)"
    by (rule dropWhile_takeWhile_commute) (rule isWhiteSpace_not_slash)
  then show ?thesis
    unfolding readInt_def beforeFirst_def by (simp only: readSigned_before_slash)
qed

lemma takeWhile_append_stop:
  "(\<And>x. x \<in> set w \<Longrightarrow> \<not> P x) \<Longrightarrow> takeWhile P (u @ w) = takeWhile P u"
proof (induction u)
  case Nil
  then have "takeWhile P w = []" by (cases w) auto
  then show ?case by simp
next
  case (Cons a u)
  then show ?case by simp
qed

lemma isWhiteSpace_not_digit: "isWhiteSpace x \<Longrightarrow> \<not> isDigit x"
  by (auto simp: isWhiteSpace_def isDigit_def)

lemma readSigned_append_ws:
  assumes w: "\<And>x. x \<in> set w \<Longrightarrow> isWhiteSpace x" and a: "a \<noteq> []"
  shows "readSigned (a @ w) = readSigned a"
proof -
  have d: "takeWhile isDigit (u @ w) = takeWhile isDigit u" for u
    by (rule takeWhile_append_stop) (auto dest: w isWhiteSpace_not_digit)
  from a obtain h t where ht: "a = h # t" by (cases a) auto
  show ?thesis unfolding ht readSigned_def Let_def
    using d [of t] d [of "h # t"] by simp
qed

lemma readInt_trim: "readInt (trim x) = readInt x"
proof -
  define y where "y = dropWhile isWhiteSpace x"
  define w where "w = rev (takeWhile isWhiteSpace (rev y))"
  have t: "trim x = rev (dropWhile isWhiteSpace (rev y))"
    by (simp add: trim_def y_def)
  have "rev y = takeWhile isWhiteSpace (rev y) @ dropWhile isWhiteSpace (rev y)"
    by simp
  then have "rev (rev y) = rev (takeWhile isWhiteSpace (rev y) @ dropWhile isWhiteSpace (rev y))"
    by (rule arg_cong)
  then have split: "y = trim x @ w"
    unfolding t w_def by (simp only: rev_rev_ident rev_append)
  have ws: "isWhiteSpace c" if "c \<in> set w" for c
    using that set_takeWhileD [of c isWhiteSpace "rev y"] by (simp add: w_def)
  show ?thesis
  proof (cases "y = []")
    case True
    with split have "trim x = []" by simp
    with True show ?thesis by (simp add: readInt_def y_def [symmetric])
  next
    case False
    then have hy: "\<not> isWhiteSpace (hd y)"
      unfolding y_def using hd_dropWhile by blast
    have ne: "trim x \<noteq> []"
    proof
      assume "trim x = []"
      with split have "y = w" by simp
      with False have "hd y \<in> set w" by simp
      with ws hy show False by blast
    qed
    with split have "hd (trim x) = hd y" by (metis hd_append2)
    with hy ne have dw: "dropWhile isWhiteSpace (trim x) = trim x"
      by (cases "trim x") auto
    have "readInt (trim x) = readSigned (trim x)"
      by (simp only: readInt_def dw)
    also have "\<dots> = readSigned (trim x @ w)"
      using readSigned_append_ws [of w "trim x"] ws ne by simp
    also have "\<dots> = readInt x"
      by (simp only: readInt_def y_def [symmetric] split [symmetric])
    finally show ?thesis .
  qed
qed

lemma signedDecimal_read: "signedDecimal s = numberOf (readSigned s)"
  by (simp add: signedDecimal_def readSigned_def numberOf_def Let_def)

lemma parseInt_read: "parseInt s = numberOf (readInt s)"
  by (simp add: parseInt_def readInt_def signedDecimal_read)

lemma numberOf_NaN: "(numberOf r = NaN) = (r = None)"
  by (cases r) (simp_all add: numberOf_def toNumber_not_NaN)

lemma readInt_digits:
  assumes "rest \<noteq> []" and "list_all isDigit rest"
  shows "readInt rest = Some (mathInt rest)"
proof -
  from assms obtain h t where ht: "rest = h # t" and h: "isDigit h" by (cases rest) auto
  from h have nw: "\<not> isWhiteSpace h" using isWhiteSpace_not_digit by blast
  from h have ns: "h \<noteq> CHR ''-''" "h \<noteq> CHR ''+''" by (auto simp: isDigit_def)
  from assms(2) have tw: "takeWhile isDigit rest = rest"
    by (simp add: takeWhile_eq_all_conv list_all_iff)
  have "dropWhile isWhiteSpace rest = rest" using nw by (simp add: ht)
  then show ?thesis
    unfolding readInt_def readSigned_def Let_def using ns tw by (simp add: ht)
qed

lemma readInt_no_number:
  assumes "rest = [] \<or> \<not> (isDigit (hd rest) \<or> isWhiteSpace (hd rest)
      \<or> hd rest = CHR ''+'' \<or> hd rest = CHR ''-'')"
  shows "readInt rest = None"
proof (cases rest)
  case Nil
  then show ?thesis by (simp add: readInt_def readSigned_def)
next
  case (Cons h t)
  with assms have "\<not> isDigit h" "\<not> isWhiteSpace h" "h \<noteq> CHR ''+''" "h \<noteq> CHR ''-''" by auto
  with Cons show ?thesis by (simp add: readInt_def readSigned_def)
qed

subsection \<open>The scope parser\<close>

lemma getCidrSize_refines: "getCidrSize addr = getCidrSize_read addr"
proof -
  let ?clean = "toLowerCase (trim addr)"
  show ?thesis
  proof (cases "CHR ''/'' \<in> set ?clean")
    case True
    then obtain ts where ts: "splitChar CHR ''/'' ?clean
        = beforeFirst CHR ''/'' ?clean # beforeFirst CHR ''/'' (afterFirst CHR ''/'' ?clean) # ts"
      using splitChar_two by blast
    show ?thesis
      unfolding getCidrSize_def getCidrSize_read_def Let_def includesChar_def ts
      by (simp add: parseInt_read readInt_beforeFirst_slash numberOf_def toNumber_not_NaN
          split: option.splits)
  next
    case False
    then show ?thesis
      unfolding getCidrSize_def getCidrSize_read_def Let_def includesChar_def by auto
  qed
qed

text \<open>
  Claim C2, as amended. \<open>getCidrSize\<close> gives 0 for the trimmed, lower-cased wildcard tokens
  \<open>any\<close>, \<open>all\<close>, \<open>*\<close> and \<open>0.0.0.0/0\<close>, and 32 for any other text without a \<open>/\<close>. For a text
  with a \<open>/\<close>, when what follows the first \<open>/\<close> is a run of decimal digits and nothing else,
  it gives that unsigned integer as a number (the integer itself below \<open>2^53\<close>, the nearest
  double above), whether or not it is at most 32; and when what follows the first \<open>/\<close> is
  empty or begins with a character that is no digit, sign or white space, it gives 32.
  Nothing is said here about a signed prefix or about digits followed by other text.
\<close>

theorem getCidrSize_by_cases:
  fixes addr :: string
  defines "clean \<equiv> toLowerCase (trim addr)"
  defines "rest \<equiv> afterFirst CHR ''/'' clean"
  defines "wild \<equiv> clean \<in> {''any'', ''all'', ''*'', ''0.0.0.0/0''}"
  shows
    "(wild \<longrightarrow> getCidrSize addr = Finite 0)
     \<and> (\<not> wild \<and> CHR ''/'' \<notin> set clean \<longrightarrow> getCidrSize addr = Finite 32)
     \<and> (\<not> wild \<and> CHR ''/'' \<in> set clean \<and> rest \<noteq> [] \<and> list_all isDigit rest \<longrightarrow>
          getCidrSize addr = toNumber (mathInt rest)
          \<and> (mathInt rest < 2 ^ 53 \<longrightarrow> getCidrSize addr = Finite (mathInt rest)))
     \<and> (\<not> wild \<and> CHR ''/'' \<in> set clean
          \<and> (rest = [] \<or> \<not> (isDigit (hd rest) \<or> isWhiteSpace (hd rest)
                \<or> hd rest = CHR ''+'' \<or> hd rest = CHR ''-'')) \<longrightarrow>
          getCidrSize addr = Finite 32)"
proof -
  have g: "getCidrSize addr =
     (if wild then Finite 0
      else if CHR ''/'' \<in> set clean then
        (case readInt rest of None \<Rightarrow> Finite 32 | Some n \<Rightarrow> toNumber n)
      else Finite 32)"
    unfolding getCidrSize_refines getCidrSize_read_def Let_def clean_def rest_def wild_def
    by simp
  have digits: "getCidrSize addr = toNumber (mathInt rest)
      \<and> (mathInt rest < 2 ^ 53 \<longrightarrow> getCidrSize addr = Finite (mathInt rest))"
    if "\<not> wild" "CHR ''/'' \<in> set clean" "rest \<noteq> []" "list_all isDigit rest"
  proof -
    from that have r: "readInt rest = Some (mathInt rest)" by (simp add: readInt_digits)
    have nonneg: "0 \<le> mathInt ds" if "list_all isDigit ds" for ds
    proof -
      have "0 \<le> a \<Longrightarrow> list_all isDigit ds \<Longrightarrow> 0 \<le> foldl (\<lambda>a c. 10 * a + digitValue c) a ds"
        for a
        by (induction ds arbitrary: a) (auto simp: isDigit_def digitValue_def)
      with that show ?thesis by (simp add: mathInt_def)
    qed
    from that(4) have "0 \<le> mathInt rest" by (rule nonneg)
    then have "mathInt rest < 2 ^ 53 \<Longrightarrow> toNumber (mathInt rest) = Finite (mathInt rest)"
      by (intro toNumber_exact) simp
    with that r show ?thesis by (simp add: g)
  qed
  have none: "getCidrSize addr = Finite 32"
    if "\<not> wild" "CHR ''/'' \<in> set clean"
      "rest = [] \<or> \<not> (isDigit (hd rest) \<or> isWhiteSpace (hd rest)
          \<or> hd rest = CHR ''+'' \<or> hd rest = CHR ''-'')"
  proof -
    from that(3) have "readInt rest = None" by (rule readInt_no_number)
    with that show ?thesis by (simp add: g)
  qed
  from g digits none show ?thesis by auto
qed

text \<open>
  The theorem at the four scope examples: a wildcard, a bare address, a prefix length and
  a mask that is no number.
\<close>

theorem getCidrSize_by_cases_examples:
  "getCidrSize ''any'' = Finite 0 \<and> getCidrSize ''10.0.0.5'' = Finite 32
   \<and> getCidrSize ''10.0.0.0/8'' = Finite 8 \<and> getCidrSize ''10.0.0.0/xx'' = Finite 32"
proof -
  have a: "toLowerCase (trim ''any'') \<in> {''any'', ''all'', ''*'', ''0.0.0.0/0''}"
    by code_simp
  have b: "\<not> toLowerCase (trim ''10.0.0.5'') \<in> {''any'', ''all'', ''*'', ''0.0.0.0/0''}
      \<and> CHR ''/'' \<notin> set (toLowerCase (trim ''10.0.0.5''))"
    by code_simp
  have c: "\<not> toLowerCase (trim ''10.0.0.0/8'') \<in> {''any'', ''all'', ''*'', ''0.0.0.0/0''}
      \<and> CHR ''/'' \<in> set (toLowerCase (trim ''10.0.0.0/8''))
      \<and> afterFirst CHR ''/'' (toLowerCase (trim ''10.0.0.0/8'')) \<noteq> []
      \<and> list_all isDigit (afterFirst CHR ''/'' (toLowerCase (trim ''10.0.0.0/8'')))"
    by code_simp
  have c': "mathInt (afterFirst CHR ''/'' (toLowerCase (trim ''10.0.0.0/8''))) = 8"
    by code_simp
  have d: "\<not> toLowerCase (trim ''10.0.0.0/xx'') \<in> {''any'', ''all'', ''*'', ''0.0.0.0/0''}
      \<and> CHR ''/'' \<in> set (toLowerCase (trim ''10.0.0.0/xx''))
      \<and> (afterFirst CHR ''/'' (toLowerCase (trim ''10.0.0.0/xx'')) = []
          \<or> \<not> (isDigit (hd (afterFirst CHR ''/'' (toLowerCase (trim ''10.0.0.0/xx''))))
              \<or> isWhiteSpace (hd (afterFirst CHR ''/'' (toLowerCase (trim ''10.0.0.0/xx''))))
              \<or> hd (afterFirst CHR ''/'' (toLowerCase (trim ''10.0.0.0/xx''))) = CHR ''+''
              \<or> hd (afterFirst CHR ''/'' (toLowerCase (trim ''10.0.0.0/xx''))) = CHR ''-''))"
    by code_simp
  have "getCidrSize ''any'' = Finite 0"
    using getCidrSize_by_cases [of "''any''"] a by blast
  moreover have "getCidrSize ''10.0.0.5'' = Finite 32"
    using getCidrSize_by_cases [of "''10.0.0.5''"] b by blast
  moreover have "getCidrSize ''10.0.0.0/8'' = Finite 8"
    using getCidrSize_by_cases [of "''10.0.0.0/8''"] c c' by (simp add: toNumber_exact)
  moreover have "getCidrSize ''10.0.0.0/xx'' = Finite 32"
    using getCidrSize_by_cases [of "''10.0.0.0/xx''"] d by blast
  ultimately show ?thesis by blast
qed

text \<open>
  Claim C2 as it was stated fails: no range check follows the parse, so the prefix length
  99 comes back as it is, outside of \<open>[0,32]\<close>; and a run of digits from \<open>2^53\<close> on comes
  back as the nearest double, \<open>9007199254740993\<close> as \<open>9007199254740992\<close>.
\<close>

theorem getCidrSize_above_32:
  "getCidrSize ''10.0.0.0/99'' = Finite 99 \<and> \<not> lessEq (getCidrSize ''10.0.0.0/99'') (Finite 32)
   \<and> getCidrSize ''10.0.0.0/9007199254740993'' = Finite 9007199254740992"
  by code_simp

subsection \<open>The port parser\<close>

lemma pushRange_exact:
  assumes "- (2 ^ 53) < a" and "b < 2 ^ 53"
    and "int (length r) + (if a \<le> b then b - a + 1 else 0) \<le> 4294967295"
  shows "pushRange (Finite a) (Finite b) r = Some (r @ map Finite [a..b])"
  using assms
proof (induction "nat (b + 1 - a)" arbitrary: a r)
  case 0
  then have "\<not> a \<le> b" by simp
  then show ?case by (subst pushRange.simps) simp
next
  case (Suc k)
  then have ab: "a \<le> b" by linarith
  with Suc.prems have len: "int (length r) < 4294967295" by simp
  from ab Suc.prems have "\<bar>a\<bar> < 2 ^ 53" by linarith
  then have inc: "increment (Finite a) = Finite (a + 1)" by (rule increment_exact)
  have "pushRange (Finite (a + 1)) (Finite b) (r @ [Finite a])
      = Some ((r @ [Finite a]) @ map Finite [a + 1..b])"
  proof (rule Suc.hyps(1))
    show "k = nat (b + 1 - (a + 1))" using Suc.hyps(2) by linarith
    show "- (2 ^ 53) < a + 1" using Suc.prems(1) by linarith
    show "b < 2 ^ 53" by (rule Suc.prems(2))
    show "int (length (r @ [Finite a])) + (if a + 1 \<le> b then b - (a + 1) + 1 else 0)
        \<le> 4294967295"
      using Suc.prems(3) ab by simp
  qed
  moreover have "[a..b] = a # [a + 1..b]" using ab by (rule upto_rec1)
  ultimately show ?case
    using ab len inc by (subst pushRange.simps) (simp add: push_def)
qed



lemma length_upto_int: "int (length [a..b]) = (if a \<le> b then b - a + 1 else 0)"
  by simp

lemma portToken_exact:
  assumes safe: "list_all (\<lambda>n. \<bar>n\<bar> < 2 ^ 53) (tokenBounds p)"
    and len: "int (length r) + int (length (tokenPorts p)) \<le> 4294967295"
  shows "portToken r p = Some (r @ map Finite (tokenPorts p))"
proof (cases "CHR ''-'' \<in> set p")
  case True
  then obtain ts where ts: "splitChar CHR ''-'' p
      = beforeFirst CHR ''-'' p # beforeFirst CHR ''-'' (afterFirst CHR ''-'' p) # ts"
    using splitChar_two by blast
  let ?ra = "readInt (beforeFirst CHR ''-'' p)"
  let ?rb = "readInt (beforeFirst CHR ''-'' (afterFirst CHR ''-'' p))"
  have pt: "portToken r p =
      (if numberOf ?ra \<noteq> NaN \<and> numberOf ?rb \<noteq> NaN
       then pushRange (numberOf ?ra) (numberOf ?rb) r else Some r)"
    unfolding portToken_def includesChar_def ts Let_def
    using True by (simp add: parseInt_read readInt_trim)
  show ?thesis
  proof (cases "\<exists>a b. ?ra = Some a \<and> ?rb = Some b")
    case False
    then have "numberOf ?ra = NaN \<or> numberOf ?rb = NaN"
      by (auto simp: numberOf_NaN)
    moreover from False True have "tokenPorts p = []"
      by (auto simp: tokenPorts_def split: option.splits)
    ultimately show ?thesis by (auto simp: pt)
  next
    case ex: True
    then obtain a b where a: "?ra = Some a" and b: "?rb = Some b" by blast
    with True have tb: "tokenBounds p = [a, b]" and tp: "tokenPorts p = [a..b]"
      by (simp_all add: tokenBounds_def tokenPorts_def)
    from safe tb have sa: "\<bar>a\<bar> < 2 ^ 53" and sb: "\<bar>b\<bar> < 2 ^ 53" by simp_all
    then have na: "numberOf ?ra = Finite a" and nb: "numberOf ?rb = Finite b"
      by (simp_all add: a b numberOf_def toNumber_exact)
    have "pushRange (Finite a) (Finite b) r = Some (r @ map Finite [a..b])"
    proof (rule pushRange_exact)
      show "- (2 ^ 53) < a" using sa by linarith
      show "b < 2 ^ 53" using sb by linarith
      show "int (length r) + (if a \<le> b then b - a + 1 else 0) \<le> 4294967295"
        using len unfolding tp length_upto_int .
    qed
    then show ?thesis by (simp add: pt na nb tp)
  qed
next
  case False
  have pt: "portToken r p =
      (if numberOf (readInt p) \<noteq> NaN then push r (numberOf (readInt p)) else Some r)"
    unfolding portToken_def includesChar_def Let_def
    using False by (simp add: parseInt_read)
  show ?thesis
  proof (cases "readInt p")
    case None
    with False show ?thesis by (simp add: pt numberOf_def tokenPorts_def)
  next
    case (Some n)
    with False have tb: "tokenBounds p = [n]" and tp: "tokenPorts p = [n]"
      by (simp_all add: tokenBounds_def tokenPorts_def)
    from safe tb have "\<bar>n\<bar> < 2 ^ 53" by simp
    then have n: "numberOf (readInt p) = Finite n"
      by (simp add: Some numberOf_def toNumber_exact)
    from len tp have "int (length r) < 4294967295" by simp
    then show ?thesis by (simp add: pt n tp push_def)
  qed
qed

lemma forEach_portToken:
  assumes "list_all (\<lambda>p. list_all (\<lambda>n. \<bar>n\<bar> < 2 ^ 53) (tokenBounds p)) ts"
    and "int (length r) + int (length (concat (map tokenPorts ts))) \<le> 4294967295"
  shows "forEach portToken r ts = Some (r @ map Finite (concat (map tokenPorts ts)))"
  using assms
proof (induction ts arbitrary: r)
  case Nil
  show ?case by simp
next
  case (Cons p ts)
  from Cons.prems have "portToken r p = Some (r @ map Finite (tokenPorts p))"
    by (intro portToken_exact) simp_all
  moreover from Cons.prems
  have "forEach portToken (r @ map Finite (tokenPorts p)) ts
      = Some ((r @ map Finite (tokenPorts p)) @ map Finite (concat (map tokenPorts ts)))"
    by (intro Cons.IH) simp_all
  ultimately show ?case by simp
qed

lemma parsePorts_fit:
  assumes "portsFit s"
  shows "parsePorts (Some s) = Some (map Finite (parsePorts_spec (Some s)))"
proof -
  let ?pieces = "splitSeparators (toLowerCase (trim s))"
  from assms have "forEach portToken [] ?pieces
      = Some ([] @ map Finite (concat (map tokenPorts ?pieces)))"
    unfolding portsFit_def Let_def by (intro forEach_portToken) simp_all
  then show ?thesis
    by (simp add: parsePorts_def parsePorts_spec_def Let_def)
qed




section \<open>The loop over the rules\<close>

subsection \<open>Arrays that fill up\<close>

lemma push_guard: "push xs x = guard (xs @ [x])"
  by (simp add: push_def guard_def)

lemma guard_same: "int (length xs) \<le> 4294967295 \<Longrightarrow> Some xs = guard (xs @ [])"
  by (simp add: guard_def)

lemma guard_Some: "guard xs = Some ys \<Longrightarrow> ys = xs \<and> int (length xs) \<le> 4294967295"
  by (simp add: guard_def split: if_splits)

lemma guard_bind:
  assumes "\<And>ys. int (length ys) \<le> 4294967295 \<Longrightarrow> f ys = guard (ys @ zs)"
  shows "(guard xs \<bind> f) = guard (xs @ zs)"
proof (cases "int (length xs) \<le> 4294967295")
  case True
  then show ?thesis by (simp add: guard_def assms)
next
  case False
  then show ?thesis by (simp add: guard_def)
qed

lemma forEach_guard:
  assumes step: "\<And>acc x. int (length acc) \<le> 4294967295 \<Longrightarrow> f acc x = guard (acc @ g x)"
    and "int (length acc) \<le> 4294967295"
  shows "forEach f acc xs = guard (acc @ concat (map g xs))"
  using assms(2)
proof (induction xs arbitrary: acc)
  case Nil
  then show ?case by (simp add: guard_def)
next
  case (Cons x xs)
  show ?case
  proof (cases "int (length (acc @ g x)) \<le> 4294967295")
    case True
    then have "forEach f (acc @ g x) xs = guard ((acc @ g x) @ concat (map g xs))"
      by (rule Cons.IH)
    with True Cons.prems show ?thesis by (simp add: step guard_def)
  next
    case False
    with Cons.prems show ?thesis by (simp add: step guard_def)
  qed
qed

subsection \<open>The blocks of the loop body\<close>

lemma anyRuleLogic_guard:
  assumes "int (length fs) \<le> 4294967295"
  shows "anyRuleLogic r (action r = ALLOW) (getCidrSize (source r) = Finite 0)
             (getCidrSize (destination r) = Finite 0) (protocol r = ANY)
             (Finite (- 1) \<in> set (portsOf r)) fs
         = guard (fs @ exposurePart r)"
  using assms
  by (simp add: exposurePart_def anyRuleLogic_def push_def guard_def Let_def split: prod.splits)

lemma subnetScope_guard:
  assumes "int (length fs) \<le> 4294967295"
  shows "subnetScope r (action r = ALLOW) (getCidrSize (source r)) fs = guard (fs @ subnetPart r)"
  using assms by (simp add: subnetPart_def subnetScope_def push_def guard_def)

lemma insecurePortStep_guard:
  assumes "int (length fs) \<le> 4294967295"
  shows "insecurePortStep act r fs p = guard (fs @ portStepPart act r p)"
  using assms
  by (simp add: portStepPart_def insecurePortStep_def push_def guard_def Let_def
      split: option.splits)

lemma insecurePorts_guard:
  assumes "int (length fs) \<le> 4294967295"
  shows "insecurePorts act r (action r = ALLOW) (portsOf r) fs = guard (fs @ portPart act r)"
proof (cases "action r = ALLOW")
  case True
  have "forEach (insecurePortStep act r) fs (portsOf r)
      = guard (fs @ concat (map (portStepPart act r) (portsOf r)))"
    using assms by (intro forEach_guard insecurePortStep_guard)
  with True show ?thesis by (simp add: insecurePorts_def portPart_def)
next
  case False
  with assms show ?thesis by (simp add: insecurePorts_def portPart_def guard_def)
qed

lemma policyHygiene_guard:
  assumes "int (length hs) \<le> 4294967295"
  shows "policyHygiene rs i (rs ! i) (action (rs ! i) = ALLOW) (getCidrSize (source (rs ! i)))
           (Finite (- 1) \<in> set (portsOf (rs ! i))) hs
         = guard (hs @ ruleHygiene rs i)"
proof -
  let ?r = "rs ! i"
  have s1: "(case shadowedBy rs i ?r of
              Some by \<Rightarrow> if enabled ?r then push h (shadowingFinding ?r by) else Some h
            | None \<Rightarrow> Some h) = guard (h @ shadowPart rs i)"
    if "int (length h) \<le> 4294967295" for h
    using that by (simp add: shadowPart_def push_def guard_def split: option.splits)
  have s2: "(case conflicting rs i ?r of
              Some other \<Rightarrow> if enabled ?r then push h (conflictFinding ?r other) else Some h
            | None \<Rightarrow> Some h) = guard (h @ conflictPart rs i)"
    if "int (length h) \<le> 4294967295" for h
    using that by (simp add: conflictPart_def push_def guard_def split: option.splits)
  have s3: "(if \<not> enabled ?r \<and> action ?r = ALLOW then
              (if getCidrSize (source ?r) = Finite 0 \<or> Finite (- 1) \<in> set (portsOf ?r)
               then push h (latentRiskFinding ?r) else Some h)
            else Some h) = guard (h @ latentPart ?r)"
    if "int (length h) \<le> 4294967295" for h
    using that by (simp add: latentPart_def push_def guard_def)
  have "policyHygiene rs i ?r (action ?r = ALLOW) (getCidrSize (source ?r))
           (Finite (- 1) \<in> set (portsOf ?r)) hs
      = (guard (hs @ shadowPart rs i) \<bind> (\<lambda>h1.
           (case conflicting rs i ?r of
              Some other \<Rightarrow> if enabled ?r then push h1 (conflictFinding ?r other) else Some h1
            | None \<Rightarrow> Some h1) \<bind> (\<lambda>h2.
           if \<not> enabled ?r \<and> action ?r = ALLOW then
              (if getCidrSize (source ?r) = Finite 0 \<or> Finite (- 1) \<in> set (portsOf ?r)
               then push h2 (latentRiskFinding ?r) else Some h2)
            else Some h2)))"
    unfolding policyHygiene_def s1 [OF assms] ..
  also have "\<dots> = guard ((hs @ shadowPart rs i) @ (conflictPart rs i @ latentPart ?r))"
  proof (rule guard_bind)
    fix h1 :: "AnalysisFinding list"
    assume h1: "int (length h1) \<le> 4294967295"
    have "(guard (h1 @ conflictPart rs i) \<bind> (\<lambda>h2.
           if \<not> enabled ?r \<and> action ?r = ALLOW then
              (if getCidrSize (source ?r) = Finite 0 \<or> Finite (- 1) \<in> set (portsOf ?r)
               then push h2 (latentRiskFinding ?r) else Some h2)
            else Some h2)) = guard ((h1 @ conflictPart rs i) @ latentPart ?r)"
      by (rule guard_bind) (rule s3)
    then show "(case conflicting rs i ?r of
              Some other \<Rightarrow> if enabled ?r then push h1 (conflictFinding ?r other) else Some h1
            | None \<Rightarrow> Some h1) \<bind> (\<lambda>h2.
           if \<not> enabled ?r \<and> action ?r = ALLOW then
              (if getCidrSize (source ?r) = Finite 0 \<or> Finite (- 1) \<in> set (portsOf ?r)
               then push h2 (latentRiskFinding ?r) else Some h2)
            else Some h2) = guard (h1 @ conflictPart rs i @ latentPart ?r)"
      unfolding s2 [OF h1] by simp
  qed
  finally show ?thesis by (simp add: ruleHygiene_def)
qed

lemma ruleBody_guard:
  assumes "int (length fs) \<le> 4294967295" and "int (length hs) \<le> 4294967295"
  shows "ruleBody act rs (fs, hs) (rs ! i, i) = bodyResult act rs (fs, hs) i"
proof (cases "parsePorts (Some (destinationPort (rs ! i)))")
  case None
  then show ?thesis by (simp add: ruleBody_def bodyResult_def)
next
  case (Some ports)
  let ?r = "rs ! i"
  from Some have po: "portsOf ?r = ports" by (simp add: portsOf_def)
  have f: "(anyRuleLogic ?r (action ?r = ALLOW) (getCidrSize (source ?r) = Finite 0)
             (getCidrSize (destination ?r) = Finite 0) (protocol ?r = ANY)
             (Finite (- 1) \<in> set (portsOf ?r)) fs \<bind> (\<lambda>f1.
           subnetScope ?r (action ?r = ALLOW) (getCidrSize (source ?r)) f1 \<bind> (\<lambda>f2.
           insecurePorts act ?r (action ?r = ALLOW) (portsOf ?r) f2)))
         = guard (fs @ ruleFindings act ?r)"
  proof -
    have "(guard (fs @ exposurePart ?r) \<bind> (\<lambda>f1.
           subnetScope ?r (action ?r = ALLOW) (getCidrSize (source ?r)) f1 \<bind> (\<lambda>f2.
           insecurePorts act ?r (action ?r = ALLOW) (portsOf ?r) f2)))
         = guard ((fs @ exposurePart ?r) @ (subnetPart ?r @ portPart act ?r))"
    proof (rule guard_bind)
      fix f1 :: "AnalysisFinding list"
      assume f1: "int (length f1) \<le> 4294967295"
      have "(guard (f1 @ subnetPart ?r) \<bind> (\<lambda>f2.
           insecurePorts act ?r (action ?r = ALLOW) (portsOf ?r) f2))
          = guard ((f1 @ subnetPart ?r) @ portPart act ?r)"
        by (rule guard_bind) (rule insecurePorts_guard)
      then show "subnetScope ?r (action ?r = ALLOW) (getCidrSize (source ?r)) f1 \<bind> (\<lambda>f2.
           insecurePorts act ?r (action ?r = ALLOW) (portsOf ?r) f2)
          = guard (f1 @ subnetPart ?r @ portPart act ?r)"
        unfolding subnetScope_guard [OF f1] by simp
    qed
    then show ?thesis
      unfolding anyRuleLogic_guard [OF assms(1)] by (simp add: ruleFindings_def)
  qed
  have h: "policyHygiene rs i ?r (action ?r = ALLOW) (getCidrSize (source ?r))
           (Finite (- 1) \<in> set (portsOf ?r)) hs = guard (hs @ ruleHygiene rs i)"
    using assms(2) by (rule policyHygiene_guard)
  have "ruleBody act rs (fs, hs) (?r, i)
      = ((anyRuleLogic ?r (action ?r = ALLOW) (getCidrSize (source ?r) = Finite 0)
             (getCidrSize (destination ?r) = Finite 0) (protocol ?r = ANY)
             (Finite (- 1) \<in> set (portsOf ?r)) fs \<bind> (\<lambda>f1.
           subnetScope ?r (action ?r = ALLOW) (getCidrSize (source ?r)) f1 \<bind> (\<lambda>f2.
           insecurePorts act ?r (action ?r = ALLOW) (portsOf ?r) f2))) \<bind> (\<lambda>f3.
         policyHygiene rs i ?r (action ?r = ALLOW) (getCidrSize (source ?r))
           (Finite (- 1) \<in> set (portsOf ?r)) hs \<bind> (\<lambda>h1. Some (f3, h1))))"
    by (simp add: ruleBody_def Some po Let_def)
  then show ?thesis
    unfolding f h by (simp add: bodyResult_def Some)
qed

subsection \<open>The whole run\<close>

lemma forEach_ruleBody:
  assumes "int (length fs) \<le> 4294967295" and "int (length hs) \<le> 4294967295"
  shows "forEach (ruleBody act rs) (fs, hs) (map (\<lambda>i. (rs ! i, i)) js)
     = (if (\<forall>i \<in> set js. parsePorts (Some (destinationPort (rs ! i))) \<noteq> None)
           \<and> int (length (fs @ concat (map (\<lambda>i. ruleFindings act (rs ! i)) js))) \<le> 4294967295
           \<and> int (length (hs @ concat (map (ruleHygiene rs) js))) \<le> 4294967295
        then Some (fs @ concat (map (\<lambda>i. ruleFindings act (rs ! i)) js),
                   hs @ concat (map (ruleHygiene rs) js))
        else None)"
  using assms
proof (induction js arbitrary: fs hs)
  case Nil
  then show ?case by simp
next
  case (Cons j js)
  have body: "ruleBody act rs (fs, hs) (rs ! j, j) = bodyResult act rs (fs, hs) j"
    using Cons.prems by (rule ruleBody_guard)
  show ?case
  proof (cases "bodyResult act rs (fs, hs) j")
    case None
    then show ?thesis
      by (auto simp: body bodyResult_def guard_def split: if_splits)
  next
    case (Some st)
    then have st: "st = (fs @ ruleFindings act (rs ! j), hs @ ruleHygiene rs j)"
      and p: "parsePorts (Some (destinationPort (rs ! j))) \<noteq> None"
      and lf: "int (length (fs @ ruleFindings act (rs ! j))) \<le> 4294967295"
      and lh: "int (length (hs @ ruleHygiene rs j)) \<le> 4294967295"
      by (auto simp: bodyResult_def guard_def split: if_splits)
    have "forEach (ruleBody act rs) (fs, hs) (map (\<lambda>i. (rs ! i, i)) (j # js))
        = forEach (ruleBody act rs) (fs @ ruleFindings act (rs ! j), hs @ ruleHygiene rs j)
            (map (\<lambda>i. (rs ! i, i)) js)"
      using Some by (simp add: body st)
    also note Cons.IH [OF lf lh]
    finally show ?thesis using p by simp
  qed
qed

lemma zip_upt_index: "zip rs [0 ..< length rs] = map (\<lambda>i. (rs ! i, i)) [0 ..< length rs]"
  by (rule nth_equalityI) simp_all

lemma map_nth_upt: "map (\<lambda>i. f (rs ! i)) [0 ..< length rs] = map f rs"
  by (rule nth_equalityI) simp_all

lemma analyzeRules_eq:
  "analyzeRules rs ps =
     (if returns rs ps
      then Some \<lparr>rules = rs, findings = allFindings rs ps, hygiene = allHygiene rs,
                 summary = summarize rs (allFindings rs ps)\<rparr>
      else None)"
proof -
  let ?act = "activeInsecurePorts ps"
  have all: "(\<forall>i \<in> set [0 ..< length rs]. parsePorts (Some (destinationPort (rs ! i))) \<noteq> None)
      = list_all (\<lambda>r. parsePorts (Some (destinationPort r)) \<noteq> None) rs"
    by (auto simp: list_all_iff all_set_conv_all_nth)
  have fe: "forEach (ruleBody ?act rs) ([], []) (map (\<lambda>i. (rs ! i, i)) [0 ..< length rs])
     = (if (\<forall>i \<in> set [0 ..< length rs]. parsePorts (Some (destinationPort (rs ! i))) \<noteq> None)
           \<and> int (length ([] @ concat (map (\<lambda>i. ruleFindings ?act (rs ! i)) [0 ..< length rs])))
               \<le> 4294967295
           \<and> int (length ([] @ concat (map (ruleHygiene rs) [0 ..< length rs]))) \<le> 4294967295
        then Some ([] @ concat (map (\<lambda>i. ruleFindings ?act (rs ! i)) [0 ..< length rs]),
                   [] @ concat (map (ruleHygiene rs) [0 ..< length rs]))
        else None)"
    by (rule forEach_ruleBody) simp_all
  have "forEach (ruleBody ?act rs) ([], []) (zip rs [0 ..< length rs])
      = (if returns rs ps then Some (allFindings rs ps, allHygiene rs) else None)"
    unfolding zip_upt_index fe all returns_def allFindings_def allHygiene_def map_nth_upt
      append_Nil ..
  then show ?thesis by (simp add: analyzeRules_def)
qed

lemma analyzeRules_Some:
  assumes "analyzeRules rs ps = Some res"
  shows "rules res = rs" and "findings res = allFindings rs ps" and "hygiene res = allHygiene rs"
    and "summary res = summarize rs (findings res)" and "returns rs ps"
  using assms by (auto simp: analyzeRules_eq split: if_splits)

subsection \<open>Scoring findings\<close>

lemma exposurePart_category: "f \<in> set (exposurePart r) \<Longrightarrow> category f = Excessive_Exposure"
  by (auto simp: exposurePart_def anyRuleLogic_def push_def Let_def
      split: if_splits prod.splits)

lemma subnetPart_category: "f \<in> set (subnetPart r) \<Longrightarrow> category f = Subnet_Scope"
  by (auto simp: subnetPart_def subnetScope_def push_def split: if_splits)

lemma portStepPart_category: "f \<in> set (portStepPart act r p) \<Longrightarrow> category f = Insecure_Port"
  by (auto simp: portStepPart_def insecurePortStep_def push_def Let_def
      split: if_splits option.splits)

lemma portPart_category: "f \<in> set (portPart act r) \<Longrightarrow> category f = Insecure_Port"
  by (auto simp: portPart_def dest: portStepPart_category split: if_splits)

lemma filter_all: "(\<And>x. x \<in> set xs \<Longrightarrow> P x) \<Longrightarrow> filter P xs = xs"
  by (induction xs) auto

lemma filter_none: "(\<And>x. x \<in> set xs \<Longrightarrow> \<not> P x) \<Longrightarrow> filter P xs = []"
  by (induction xs) auto

lemma ruleFindings_exposure:
  "filter (\<lambda>f. category f = Excessive_Exposure) (ruleFindings act r) = exposurePart r"
proof -
  have "filter (\<lambda>f. category f = Excessive_Exposure) (exposurePart r) = exposurePart r"
    by (rule filter_all) (rule exposurePart_category)
  moreover have "filter (\<lambda>f. category f = Excessive_Exposure) (subnetPart r) = []"
    by (rule filter_none) (auto dest: subnetPart_category)
  moreover have "filter (\<lambda>f. category f = Excessive_Exposure) (portPart act r) = []"
    by (rule filter_none) (auto dest: portPart_category)
  ultimately show ?thesis by (simp add: ruleFindings_def)
qed

lemma ruleFindings_subnet:
  "filter (\<lambda>f. category f = Subnet_Scope) (ruleFindings act r) = subnetPart r"
proof -
  have "filter (\<lambda>f. category f = Subnet_Scope) (exposurePart r) = []"
    by (rule filter_none) (auto dest: exposurePart_category)
  moreover have "filter (\<lambda>f. category f = Subnet_Scope) (subnetPart r) = subnetPart r"
    by (rule filter_all) (rule subnetPart_category)
  moreover have "filter (\<lambda>f. category f = Subnet_Scope) (portPart act r) = []"
    by (rule filter_none) (auto dest: portPart_category)
  ultimately show ?thesis by (simp add: ruleFindings_def)
qed

lemma ruleFindings_port:
  "filter (\<lambda>f. category f = Insecure_Port) (ruleFindings act r) = portPart act r"
proof -
  have "filter (\<lambda>f. category f = Insecure_Port) (exposurePart r) = []"
    by (rule filter_none) (auto dest: exposurePart_category)
  moreover have "filter (\<lambda>f. category f = Insecure_Port) (subnetPart r) = []"
    by (rule filter_none) (auto dest: subnetPart_category)
  moreover have "filter (\<lambda>f. category f = Insecure_Port) (portPart act r) = portPart act r"
    by (rule filter_all) (rule portPart_category)
  ultimately show ?thesis by (simp add: ruleFindings_def)
qed

lemma findings_by_category:
  assumes "analyzeRules rs ps = Some res"
    and "\<And>r. map g (filter P (ruleFindings (activeInsecurePorts ps) r)) = h r"
  shows "map g (filter P (findings res)) = concat (map h rs)"
  by (simp add: analyzeRules_Some(2) [OF assms(1)] allFindings_def filter_concat map_concat
      comp_def assms(2))

lemma exposurePart_brief: "map brief (exposurePart r) = classified r (exposureClass r)"
  by (simp add: exposurePart_def anyRuleLogic_def push_def exposureClass_def classified_def
      brief_def Let_def)

lemma subnetPart_brief: "map brief (subnetPart r) = classified r (subnetClass r)"
  by (cases "getCidrSize (source r)")
    (simp_all add: subnetPart_def subnetScope_def push_def subnetClass_def classified_def
      brief_def lessEq_def less_def)

lemma activeInsecurePorts_snoc:
  "activeInsecurePorts (ps @ [s])
   = (if enabled_setting s then (activeInsecurePorts ps)(port s \<mapsto> s) else activeInsecurePorts ps)"
  by (simp add: activeInsecurePorts_def)

lemma activeInsecurePorts_lookup: "activeInsecurePorts ps p = policyEntry ps p"
proof (induction ps rule: rev_induct)
  case Nil
  show ?case by (simp add: activeInsecurePorts_def policyEntry_def)
next
  case (snoc s ps)
  then show ?case
    by (auto simp: activeInsecurePorts_snoc policyEntry_def)
qed

lemma find_Some_holds: "List.find P xs = Some x \<Longrightarrow> P x \<and> x \<in> set xs"
  by (induction xs) (auto split: if_splits)

lemma policyEntry_cases:
  "(case policyEntry ps p of
      None \<Rightarrow> \<not> (\<exists>s \<in> set ps. enabled_setting s \<and> port s = p)
    | Some e \<Rightarrow> e \<in> set ps \<and> enabled_setting e \<and> port e = p)"
  unfolding policyEntry_def
  by (auto split: option.splits simp: find_None_iff dest: find_Some_holds)

lemma portStepPart_brief:
  "map brief (portStepPart (activeInsecurePorts ps) r p)
   = (if p = Finite (- 1) then []
      else case policyEntry ps p of
             None \<Rightarrow> []
           | Some e \<Rightarrow>
               [(id_rule r, criticality e,
                 if criticality e = CRITICAL then 100
                 else if criticality e = HIGH then 90 else 60)])"
  by (simp add: portStepPart_def insecurePortStep_def push_def activeInsecurePorts_lookup
      brief_def Let_def split: option.splits)

lemma portPart_brief: "map brief (portPart (activeInsecurePorts ps) r) = portFindings ps r"
  by (simp add: portPart_def map_concat comp_def portStepPart_brief portFindings_def)

lemma portsOf_enabled: "portsOf (r\<lparr>enabled := b\<rparr>) = portsOf r"
  by (simp add: portsOf_def)

lemma exposurePart_enabled: "exposurePart (r\<lparr>enabled := b\<rparr>) = exposurePart r"
proof -
  have "anyRuleLogic (r\<lparr>enabled := b\<rparr>) = anyRuleLogic r"
    by (intro ext) (auto simp: anyRuleLogic_def)
  then show ?thesis
    unfolding exposurePart_def portsOf_enabled by simp
qed

lemma subnetPart_enabled: "subnetPart (r\<lparr>enabled := b\<rparr>) = subnetPart r"
proof -
  have "subnetScope (r\<lparr>enabled := b\<rparr>) = subnetScope r"
    by (intro ext) (simp add: subnetScope_def)
  then show ?thesis
    unfolding subnetPart_def by simp
qed

lemma portPart_enabled: "portPart act (r\<lparr>enabled := b\<rparr>) = portPart act r"
proof -
  have "insecurePortStep act (r\<lparr>enabled := b\<rparr>) = insecurePortStep act r"
    by (intro ext) (auto simp: insecurePortStep_def Let_def split: option.splits)
  then have "portStepPart act (r\<lparr>enabled := b\<rparr>) = portStepPart act r"
    by (intro ext) (simp add: portStepPart_def)
  then show ?thesis
    unfolding portPart_def portsOf_enabled by simp
qed

lemma ruleFindings_enabled: "ruleFindings act (r\<lparr>enabled := b\<rparr>) = ruleFindings act r"
  by (simp only: ruleFindings_def exposurePart_enabled subnetPart_enabled portPart_enabled)

lemma allFindings_enabled:
  "allFindings (map (\<lambda>r. r\<lparr>enabled := b\<rparr>) rs) ps = allFindings rs ps"
  by (simp add: allFindings_def comp_def ruleFindings_enabled)

subsection \<open>The summary\<close>

lemma foldl_score: "foldl (\<lambda>a b. a + score b) s fs = s + sum_list (map score fs)"
  by (induction fs arbitrary: s) simp_all

lemma Math_round_nearest: "\<bar>real_of_int (Math_round x) - x\<bar> \<le> \<bar>real_of_int k - x\<bar>"
proof -
  define m where "m = Math_round x"
  have lo: "real_of_int m \<le> x + 1 / 2" and hi: "x + 1 / 2 < real_of_int m + 1"
    unfolding m_def Math_round_def by linarith+
  consider "k = m" | "k \<ge> m + 1" | "k \<le> m - 1" by linarith
  then show ?thesis
  proof cases
    case 1
    then show ?thesis by (simp add: m_def)
  next
    case 2
    then have "real_of_int k \<ge> real_of_int m + 1" by linarith
    with lo hi show ?thesis unfolding m_def [symmetric] by linarith
  next
    case 3
    then have "real_of_int k \<le> real_of_int m - 1" by linarith
    with lo hi show ?thesis unfolding m_def [symmetric] by linarith
  qed
qed

lemma summarize_average:
  "averageRiskScore (summarize rs fs)
   = (if fs = [] then 0
      else Math_round (real_of_int (sum_list (map score fs)) / real (length fs)))"
  by (simp add: summarize_def foldl_score)

subsection \<open>Runs that return\<close>

lemma length_concat_le:
  "(\<And>x. x \<in> set xs \<Longrightarrow> length (f x) \<le> g x)
   \<Longrightarrow> length (concat (map f xs)) \<le> sum_list (map g xs)"
proof (induction xs)
  case Nil
  show ?case by simp
next
  case (Cons x xs)
  have "length (f x) \<le> g x" by (rule Cons.prems) simp
  moreover have "length (concat (map f xs)) \<le> sum_list (map g xs)"
    by (rule Cons.IH) (simp add: Cons.prems)
  ultimately show ?case by simp
qed

lemma sum_list_const: "sum_list (map (\<lambda>_. c) xs) = length xs * (c::nat)"
  by (induction xs) simp_all

lemma length_exposurePart: "length (exposurePart r) \<le> 1"
  by (auto simp: exposurePart_def anyRuleLogic_def push_def Let_def split: prod.splits)

lemma length_subnetPart: "length (subnetPart r) \<le> 1"
  by (auto simp: subnetPart_def subnetScope_def push_def)

lemma length_portStepPart: "length (portStepPart act r p) \<le> 1"
  by (auto simp: portStepPart_def insecurePortStep_def push_def Let_def split: option.splits)

lemma length_portPart: "length (portPart act r) \<le> length (portsOf r)"
proof -
  have "length (concat (map (portStepPart act r) (portsOf r)))
      \<le> sum_list (map (\<lambda>_. 1) (portsOf r))"
    by (rule length_concat_le) (rule length_portStepPart)
  then show ?thesis by (simp add: portPart_def sum_list_const)
qed

lemma length_ruleFindings: "length (ruleFindings act r) \<le> 2 + length (portsOf r)"
  using length_exposurePart [of r] length_subnetPart [of r] length_portPart [of act r]
  by (simp add: ruleFindings_def)

lemma length_ruleHygiene: "length (ruleHygiene rs i) \<le> 3"
proof -
  have "length (shadowPart rs i) \<le> 1"
    by (simp add: shadowPart_def split: option.splits)
  moreover have "length (conflictPart rs i) \<le> 1"
    by (simp add: conflictPart_def split: option.splits)
  moreover have "length (latentPart (rs ! i)) \<le> 1"
    by (simp add: latentPart_def)
  ultimately show ?thesis by (simp add: ruleHygiene_def)
qed

lemma portsOf_fit:
  "portsFit (destinationPort r)
   \<Longrightarrow> portsOf r = map Finite (parsePorts_spec (Some (destinationPort r)))"
  by (simp add: portsOf_def parsePorts_fit)

lemma withinLimits_returns:
  assumes "withinLimits rs"
  shows "returns rs ps"
proof -
  from assms have fit: "\<And>r. r \<in> set rs \<Longrightarrow> portsFit (destinationPort r)"
    and total: "int (sum_list (map (\<lambda>r. 2 + length (parsePorts_spec (Some (destinationPort r)))) rs))
          \<le> 4294967295"
    and three: "3 * int (length rs) \<le> 4294967295"
    by (simp_all add: withinLimits_def list_all_iff)
  have parse: "list_all (\<lambda>r. parsePorts (Some (destinationPort r)) \<noteq> None) rs"
    unfolding list_all_iff
  proof
    fix r
    assume "r \<in> set rs"
    then have "portsFit (destinationPort r)" by (rule fit)
    then show "parsePorts (Some (destinationPort r)) \<noteq> None"
      by (simp add: parsePorts_fit)
  qed
  have "length (allFindings rs ps)
      \<le> sum_list (map (\<lambda>r. 2 + length (parsePorts_spec (Some (destinationPort r)))) rs)"
    unfolding allFindings_def
  proof (rule length_concat_le)
    fix r
    assume "r \<in> set rs"
    then have "portsOf r = map Finite (parsePorts_spec (Some (destinationPort r)))"
      by (intro portsOf_fit fit)
    with length_ruleFindings [of "activeInsecurePorts ps" r]
    show "length (ruleFindings (activeInsecurePorts ps) r)
        \<le> 2 + length (parsePorts_spec (Some (destinationPort r)))"
      by simp
  qed
  with total have fs: "int (length (allFindings rs ps)) \<le> 4294967295" by linarith
  have "length (allHygiene rs) \<le> sum_list (map (\<lambda>_. 3) [0 ..< length rs])"
    unfolding allHygiene_def by (rule length_concat_le) (rule length_ruleHygiene)
  then have "length (allHygiene rs) \<le> length rs * 3" by (simp add: sum_list_const)
  with three have hs: "int (length (allHygiene rs)) \<le> 4294967295" by linarith
  from parse fs hs show ?thesis by (simp add: returns_def)
qed

lemma analyzeRules_returns: "withinLimits rs \<Longrightarrow> analyzeRules rs ps \<noteq> None"
  by (simp add: analyzeRules_eq withinLimits_returns)

lemma withinLimits_enabled: "withinLimits (map (\<lambda>r. r\<lparr>enabled := b\<rparr>) rs) = withinLimits rs"
  by (simp add: withinLimits_def list_all_iff comp_def)

subsection \<open>The scoring claims\<close>

text \<open>
  Claim C3. A run on rules within the limits of the parser and of the arrays returns, and
  in every run that returns the Excessive Exposure findings are, rule by rule and in the
  order of the rules, at most one finding per rule: none when the action is not ALLOW or
  none of \<open>anySource\<close>, \<open>anyDest\<close>, \<open>anyProto\<close>, \<open>hasAnyPort\<close> holds, and otherwise exactly
  one, classified by the first match over the weighted count \<open>w\<close> (1 for each of
  \<open>anySource\<close>, \<open>anyDest\<close>, \<open>hasAnyPort\<close> and 0.5 for \<open>anyProto\<close>): \<open>w \<ge> 3\<close> gives CRITICAL/100,
  else \<open>anySource\<close> gives HIGH/85, else \<open>anyDest\<close> gives HIGH/80, else MEDIUM/60. An ALLOW rule
  from any source to any destination on any port is CRITICAL/100, and one that is open in
  its source only is HIGH/85.
\<close>

theorem excessive_exposure_classified:
  "(withinLimits rs \<longrightarrow> analyzeRules rs ps \<noteq> None)
   \<and> (analyzeRules rs ps = Some res \<longrightarrow>
        map brief (filter (\<lambda>f. category f = Excessive_Exposure) (findings res))
        = concat (map (\<lambda>r. classified r (exposureClass r)) rs))
   \<and> map_option (\<lambda>res. map brief (findings res)) (analyzeRules
         [baseRule\<lparr>source := ''any'', destination := ''any'', destinationPort := ''any''\<rparr>] [])
     = Some [(''R'', CRITICAL, 100)]
   \<and> map_option (\<lambda>res. map brief (findings res))
         (analyzeRules [baseRule\<lparr>source := ''any''\<rparr>] [])
     = Some [(''R'', HIGH, 85)]"
proof -
  have general:
    "map brief (filter (\<lambda>f. category f = Excessive_Exposure) (findings res))
     = concat (map (\<lambda>r. classified r (exposureClass r)) rs)"
    if "analyzeRules rs ps = Some res"
    using that
    by (rule findings_by_category) (simp add: ruleFindings_exposure exposurePart_brief)
  have examples:
    "map_option (\<lambda>res. map brief (findings res)) (analyzeRules
           [baseRule\<lparr>source := ''any'', destination := ''any'', destinationPort := ''any''\<rparr>] [])
       = Some [(''R'', CRITICAL, 100)]
     \<and> map_option (\<lambda>res. map brief (findings res))
           (analyzeRules [baseRule\<lparr>source := ''any''\<rparr>] [])
       = Some [(''R'', HIGH, 85)]"
    by code_simp
  from analyzeRules_returns [of rs ps] general examples show ?thesis by blast
qed

text \<open>
  The theorem at the run of the three example rules, which are within the limits: one
  Excessive Exposure finding for each, CRITICAL/100, HIGH/80 and MEDIUM/60.
\<close>

theorem excessive_exposure_classified_example:
  "withinLimits threeRules
   \<and> analyzeRules threeRules [] \<noteq> None
   \<and> map brief (filter (\<lambda>f. category f = Excessive_Exposure)
       (findings (the (analyzeRules threeRules []))))
     = [(''A'', CRITICAL, 100), (''B'', HIGH, 80), (''C'', MEDIUM, 60)]"
proof -
  have w: "withinLimits threeRules" by code_simp
  have e: "concat (map (\<lambda>r. classified r (exposureClass r)) threeRules)
      = [(''A'', CRITICAL, 100), (''B'', HIGH, 80), (''C'', MEDIUM, 60)]"
    by code_simp
  from excessive_exposure_classified [of threeRules "[]" "the (analyzeRules threeRules [])"] w e
  show ?thesis by auto
qed

text \<open>
  Claim C4. A run on rules within the limits of the parser and of the arrays returns, and
  in every run that returns the Subnet Scope findings are, rule by rule, at most one
  finding per rule: for an ALLOW rule with source scope \<open>s\<close>, exactly one when
  \<open>0 < s \<le> 22\<close> (CRITICAL/80 for \<open>s \<le> 8\<close>, HIGH/80 for \<open>8 < s \<le> 16\<close>, HIGH/60 for
  \<open>17 \<le> s \<le> 22\<close>) and none when \<open>s = 0\<close> or \<open>s > 22\<close>. The boundaries /8, /9, /16, /17, /22
  and /23 fall as stated, and the finding stands beside an Excessive Exposure finding of
  the same rule.
\<close>

theorem subnet_scope_classified:
  "(withinLimits rs \<longrightarrow> analyzeRules rs ps \<noteq> None)
   \<and> (analyzeRules rs ps = Some res \<longrightarrow>
        map brief (filter (\<lambda>f. category f = Subnet_Scope) (findings res))
        = concat (map (\<lambda>r. classified r (subnetClass r)) rs))
   \<and> map (\<lambda>s. map_option (\<lambda>res. map brief (filter (\<lambda>f. category f = Subnet_Scope)
                (findings res))) (analyzeRules [baseRule\<lparr>source := s\<rparr>] []))
         [''10.0.0.0/8'', ''10.0.0.0/9'', ''10.0.0.0/16'', ''10.0.0.0/17'', ''10.0.0.0/22'',
          ''10.0.0.0/23'', ''any'']
     = [Some [(''R'', CRITICAL, 80)], Some [(''R'', HIGH, 80)], Some [(''R'', HIGH, 80)],
        Some [(''R'', HIGH, 60)], Some [(''R'', HIGH, 60)], Some [], Some []]
   \<and> map_option (\<lambda>res. map (\<lambda>f. (category f, severity f, score f)) (findings res))
         (analyzeRules [baseRule\<lparr>source := ''10.0.0.0/8'', destination := ''any''\<rparr>] [])
     = Some [(Excessive_Exposure, HIGH, 80), (Subnet_Scope, CRITICAL, 80)]"
proof -
  have general:
    "map brief (filter (\<lambda>f. category f = Subnet_Scope) (findings res))
     = concat (map (\<lambda>r. classified r (subnetClass r)) rs)"
    if "analyzeRules rs ps = Some res"
    using that
    by (rule findings_by_category) (simp add: ruleFindings_subnet subnetPart_brief)
  have boundaries:
    "map (\<lambda>s. map_option (\<lambda>res. map brief (filter (\<lambda>f. category f = Subnet_Scope)
                  (findings res))) (analyzeRules [baseRule\<lparr>source := s\<rparr>] []))
           [''10.0.0.0/8'', ''10.0.0.0/9'', ''10.0.0.0/16'', ''10.0.0.0/17'', ''10.0.0.0/22'',
            ''10.0.0.0/23'', ''any'']
       = [Some [(''R'', CRITICAL, 80)], Some [(''R'', HIGH, 80)], Some [(''R'', HIGH, 80)],
          Some [(''R'', HIGH, 60)], Some [(''R'', HIGH, 60)], Some [], Some []]"
    by code_simp
  have both:
    "map_option (\<lambda>res. map (\<lambda>f. (category f, severity f, score f)) (findings res))
           (analyzeRules [baseRule\<lparr>source := ''10.0.0.0/8'', destination := ''any''\<rparr>] [])
       = Some [(Excessive_Exposure, HIGH, 80), (Subnet_Scope, CRITICAL, 80)]"
    by code_simp
  from analyzeRules_returns [of rs ps] general boundaries both show ?thesis by blast
qed

text \<open>
  The theorem at a run of three rules from a /8, a /17 and a /24, which are within the
  limits: a CRITICAL/80 finding for the first, a HIGH/60 finding for the second and none
  for the third.
\<close>

theorem subnet_scope_classified_example:
  "withinLimits subnetRules
   \<and> analyzeRules subnetRules [] \<noteq> None
   \<and> map brief (filter (\<lambda>f. category f = Subnet_Scope)
       (findings (the (analyzeRules subnetRules []))))
     = [(''A'', CRITICAL, 80), (''B'', HIGH, 60)]"
proof -
  have w: "withinLimits subnetRules" by code_simp
  have e: "concat (map (\<lambda>r. classified r (subnetClass r)) subnetRules)
      = [(''A'', CRITICAL, 80), (''B'', HIGH, 60)]"
    by code_simp
  from subnet_scope_classified [of subnetRules "[]" "the (analyzeRules subnetRules [])"] w e
  show ?thesis by auto
qed

text \<open>
  Claim C5. A run on rules within the limits of the parser and of the arrays returns, and
  in every run that returns the Insecure Port findings are, rule by rule and port by port
  in the order of the parsed port list, one finding for every port of an ALLOW rule that
  is not the wildcard sentinel and has an enabled policy entry, and none for any other
  port; the severity is the entry's criticality and the score is 100 for CRITICAL, 90 for
  HIGH and 60 otherwise. The entry found for a port is an enabled entry of the policy with
  exactly that port (the last one, should the policy list several), and none is found
  exactly when the policy has no enabled entry with that port. A rule to port 445 under
  the enabled entry for 445 with criticality HIGH gets one finding, HIGH/90, and none once
  the entry is disabled.
\<close>

theorem insecure_port_findings:
  "(withinLimits rs \<longrightarrow> analyzeRules rs ps \<noteq> None)
   \<and> (analyzeRules rs ps = Some res \<longrightarrow>
        map brief (filter (\<lambda>f. category f = Insecure_Port) (findings res))
        = concat (map (portFindings ps) rs))
   \<and> (case policyEntry ps p of
         None \<Rightarrow> \<not> (\<exists>s \<in> set ps. enabled_setting s \<and> port s = p)
       | Some e \<Rightarrow> e \<in> set ps \<and> enabled_setting e \<and> port e = p)
   \<and> map_option (\<lambda>res. map brief (findings res))
         (analyzeRules [baseRule\<lparr>destinationPort := ''445''\<rparr>] [smbSetting])
     = Some [(''R'', HIGH, 90)]
   \<and> map_option findings (analyzeRules [baseRule\<lparr>destinationPort := ''445''\<rparr>]
         [smbSetting\<lparr>enabled_setting := False\<rparr>]) = Some []"
proof -
  have general:
    "map brief (filter (\<lambda>f. category f = Insecure_Port) (findings res))
     = concat (map (portFindings ps) rs)"
    if "analyzeRules rs ps = Some res"
    using that
    by (rule findings_by_category) (simp add: ruleFindings_port portPart_brief)
  have examples:
    "map_option (\<lambda>res. map brief (findings res))
           (analyzeRules [baseRule\<lparr>destinationPort := ''445''\<rparr>] [smbSetting])
       = Some [(''R'', HIGH, 90)]
     \<and> map_option findings (analyzeRules [baseRule\<lparr>destinationPort := ''445''\<rparr>]
           [smbSetting\<lparr>enabled_setting := False\<rparr>]) = Some []"
    by code_simp
  from analyzeRules_returns [of rs ps] general policyEntry_cases [of ps p] examples
  show ?thesis by blast
qed

text \<open>
  The theorem at a run of two rules under the policy that lists port 445, within the
  limits: the ALLOW rule to the ports 443 and 445 gets one finding, for 445, and the DENY
  rule to port 445 gets none.
\<close>

theorem insecure_port_findings_example:
  "withinLimits portRules
   \<and> analyzeRules portRules [smbSetting] \<noteq> None
   \<and> map brief (filter (\<lambda>f. category f = Insecure_Port)
       (findings (the (analyzeRules portRules [smbSetting]))))
     = [(''A'', HIGH, 90)]
   \<and> policyEntry [smbSetting] (Finite 445) = Some smbSetting"
proof -
  have w: "withinLimits portRules" by code_simp
  have e: "concat (map (portFindings [smbSetting]) portRules) = [(''A'', HIGH, 90)]"
    by code_simp
  have p: "policyEntry [smbSetting] (Finite 445) = Some smbSetting"
    by (simp add: policyEntry_def smbSetting_def)
  from insecure_port_findings
    [of portRules "[smbSetting]" "the (analyzeRules portRules [smbSetting])" "Finite 445"] w e p
  show ?thesis by auto
qed

subsection \<open>The summary claims\<close>

text \<open>
  Claim C8. A run on rules within the limits of the parser and of the arrays returns, and
  in the summary of every run that returns, \<open>totalRules\<close> is the length of the rule list,
  \<open>enabledRules\<close> the number of enabled rules, and the four severity counts are the numbers
  of scoring findings of that severity: the hygiene list is not read. \<open>averageRiskScore\<close> is
  0 without scoring findings and otherwise the mean of their scores rounded to a nearest
  integer (no integer is closer to the mean; a tie goes up). Whenever the scoring findings
  have the scores 100, 80, 60 and the severities CRITICAL, HIGH, MEDIUM, the summary counts
  one of each and reports the average 80.
\<close>

theorem summary_arithmetic:
  fixes rs ps k res
  defines "fs \<equiv> findings res"
  defines "sm \<equiv> summary res"
  defines "mean \<equiv> (if fs = [] then 0 else real_of_int (sum_list (map score fs)) / real (length fs))"
  shows
    "(withinLimits rs \<longrightarrow> analyzeRules rs ps \<noteq> None)
     \<and> (analyzeRules rs ps = Some res \<longrightarrow>
          totalRules sm = length rs
          \<and> enabledRules sm = length (filter enabled rs)
          \<and> criticalFindings sm = length (filter (\<lambda>f. severity f = CRITICAL) fs)
          \<and> highFindings sm = length (filter (\<lambda>f. severity f = HIGH) fs)
          \<and> mediumFindings sm = length (filter (\<lambda>f. severity f = MEDIUM) fs)
          \<and> lowFindings sm = length (filter (\<lambda>f. severity f = LOW) fs)
          \<and> averageRiskScore sm = (if fs = [] then 0 else Math_round mean)
          \<and> \<bar>real_of_int (averageRiskScore sm) - mean\<bar> \<le> \<bar>real_of_int k - mean\<bar>
          \<and> (map (\<lambda>f. (score f, severity f)) fs = [(100, CRITICAL), (80, HIGH), (60, MEDIUM)]
             \<longrightarrow> criticalFindings sm = 1 \<and> highFindings sm = 1 \<and> mediumFindings sm = 1
                 \<and> lowFindings sm = 0 \<and> averageRiskScore sm = 80))"
proof -
  have returned:
    "totalRules sm = length rs
     \<and> enabledRules sm = length (filter enabled rs)
     \<and> criticalFindings sm = length (filter (\<lambda>f. severity f = CRITICAL) fs)
     \<and> highFindings sm = length (filter (\<lambda>f. severity f = HIGH) fs)
     \<and> mediumFindings sm = length (filter (\<lambda>f. severity f = MEDIUM) fs)
     \<and> lowFindings sm = length (filter (\<lambda>f. severity f = LOW) fs)
     \<and> averageRiskScore sm = (if fs = [] then 0 else Math_round mean)
     \<and> \<bar>real_of_int (averageRiskScore sm) - mean\<bar> \<le> \<bar>real_of_int k - mean\<bar>
     \<and> (map (\<lambda>f. (score f, severity f)) fs = [(100, CRITICAL), (80, HIGH), (60, MEDIUM)]
        \<longrightarrow> criticalFindings sm = 1 \<and> highFindings sm = 1 \<and> mediumFindings sm = 1
            \<and> lowFindings sm = 0 \<and> averageRiskScore sm = 80)"
    if run: "analyzeRules rs ps = Some res"
  proof -
    have sm: "sm = summarize rs fs"
      unfolding sm_def fs_def using run by (rule analyzeRules_Some(4))
    have counts:
      "totalRules sm = length rs"
      "enabledRules sm = length (filter enabled rs)"
      "criticalFindings sm = length (filter (\<lambda>f. severity f = CRITICAL) fs)"
      "highFindings sm = length (filter (\<lambda>f. severity f = HIGH) fs)"
      "mediumFindings sm = length (filter (\<lambda>f. severity f = MEDIUM) fs)"
      "lowFindings sm = length (filter (\<lambda>f. severity f = LOW) fs)"
      unfolding sm by (simp_all add: summarize_def)
    have avg: "averageRiskScore sm = (if fs = [] then 0 else Math_round mean)"
      unfolding sm mean_def by (simp add: summarize_average)
    have avg': "averageRiskScore sm = Math_round mean"
      unfolding avg by (simp add: mean_def Math_round_def)
    have near: "\<bar>real_of_int (averageRiskScore sm) - mean\<bar> \<le> \<bar>real_of_int k - mean\<bar>"
      unfolding avg' by (rule Math_round_nearest)
    have example: "criticalFindings sm = 1 \<and> highFindings sm = 1 \<and> mediumFindings sm = 1
        \<and> lowFindings sm = 0 \<and> averageRiskScore sm = 80"
      if m: "map (\<lambda>f. (score f, severity f)) fs = [(100, CRITICAL), (80, HIGH), (60, MEDIUM)]"
    proof -
      from m obtain a b c where abc: "fs = [a, b, c]"
        and "score a = 100" "severity a = CRITICAL" "score b = 80" "severity b = HIGH"
        "score c = 60" "severity c = MEDIUM"
        by auto
      then show ?thesis
        unfolding sm by (simp add: summarize_def Math_round_def)
    qed
    from counts avg near example show ?thesis by blast
  qed
  from analyzeRules_returns [of rs ps] returned show ?thesis by blast
qed

text \<open>
  The theorem at the run of the three example rules, which are within the limits: their
  scoring findings are CRITICAL/100, HIGH/80 and MEDIUM/60, the hygiene list holds a
  shadowing finding beside them, and the summary counts one finding of each severity with
  the average 80.
\<close>

theorem summary_arithmetic_example:
  "withinLimits threeRules
   \<and> analyzeRules threeRules [] \<noteq> None
   \<and> map (\<lambda>f. (score f, severity f)) (findings (the (analyzeRules threeRules [])))
     = [(100, CRITICAL), (80, HIGH), (60, MEDIUM)]
   \<and> map (\<lambda>f. (ruleId f, severity f)) (hygiene (the (analyzeRules threeRules [])))
     = [(''B'', INFORMATIONAL)]
   \<and> criticalFindings (summary (the (analyzeRules threeRules []))) = 1
   \<and> highFindings (summary (the (analyzeRules threeRules []))) = 1
   \<and> mediumFindings (summary (the (analyzeRules threeRules []))) = 1
   \<and> lowFindings (summary (the (analyzeRules threeRules []))) = 0
   \<and> averageRiskScore (summary (the (analyzeRules threeRules []))) = 80"
proof -
  have w: "withinLimits threeRules" by code_simp
  have f: "map (\<lambda>f. (score f, severity f)) (findings (the (analyzeRules threeRules [])))
     = [(100, CRITICAL), (80, HIGH), (60, MEDIUM)]"
    by code_simp
  have h: "map (\<lambda>f. (ruleId f, severity f)) (hygiene (the (analyzeRules threeRules [])))
     = [(''B'', INFORMATIONAL)]"
    by code_simp
  from summary_arithmetic [of threeRules "[]" "the (analyzeRules threeRules [])" 0] w
  have r: "analyzeRules threeRules [] \<noteq> None"
    by blast
  then obtain res where run: "analyzeRules threeRules [] = Some res" by auto
  then have the: "the (analyzeRules threeRules []) = res" by simp
  from f have f': "map (\<lambda>f. (score f, severity f)) (findings res)
      = [(100, CRITICAL), (80, HIGH), (60, MEDIUM)]"
    unfolding the .
  from summary_arithmetic [of threeRules "[]" res 0] run f'
  have "criticalFindings (summary res) = 1 \<and> highFindings (summary res) = 1
      \<and> mediumFindings (summary res) = 1 \<and> lowFindings (summary res) = 0
      \<and> averageRiskScore (summary res) = 80"
    by blast
  with w r f h show ?thesis unfolding the by blast
qed

text \<open>
  Claim C10. Two rule lists that differ in their \<open>enabled\<close> flags only are within the limits
  of the parser and of the arrays together, and then both runs return; runs on them under
  the same port policy that return give the same scoring findings, and the same summary
  but for \<open>enabledRules\<close>.
\<close>

theorem findings_ignore_enabled:
  assumes "map (\<lambda>r. r\<lparr>enabled := True\<rparr>) rs = map (\<lambda>r. r\<lparr>enabled := True\<rparr>) rs'"
  shows "(withinLimits rs \<longrightarrow> analyzeRules rs ps \<noteq> None \<and> analyzeRules rs' ps \<noteq> None)
     \<and> (analyzeRules rs ps = Some res \<and> analyzeRules rs' ps = Some res' \<longrightarrow>
          findings res = findings res'
          \<and> (summary res)\<lparr>enabledRules := 0\<rparr> = (summary res')\<lparr>enabledRules := 0\<rparr>)"
proof -
  have both: "analyzeRules rs ps \<noteq> None \<and> analyzeRules rs' ps \<noteq> None" if w: "withinLimits rs"
  proof -
    have "withinLimits rs' = withinLimits (map (\<lambda>r. r\<lparr>enabled := True\<rparr>) rs')"
      by (rule withinLimits_enabled [symmetric])
    also have "\<dots> = withinLimits (map (\<lambda>r. r\<lparr>enabled := True\<rparr>) rs)"
      by (simp only: assms)
    also have "\<dots> = withinLimits rs"
      by (rule withinLimits_enabled)
    finally have "withinLimits rs'" using w by simp
    with w show ?thesis by (simp add: analyzeRules_returns)
  qed
  have same: "findings res = findings res'
      \<and> (summary res)\<lparr>enabledRules := 0\<rparr> = (summary res')\<lparr>enabledRules := 0\<rparr>"
    if run: "analyzeRules rs ps = Some res" and run': "analyzeRules rs' ps = Some res'"
  proof -
    have "findings res = allFindings rs ps"
      using run by (rule analyzeRules_Some(2))
    also have "\<dots> = allFindings (map (\<lambda>r. r\<lparr>enabled := True\<rparr>) rs) ps"
      by (rule allFindings_enabled [symmetric])
    also have "\<dots> = allFindings (map (\<lambda>r. r\<lparr>enabled := True\<rparr>) rs') ps"
      by (simp only: assms)
    also have "\<dots> = allFindings rs' ps"
      by (rule allFindings_enabled)
    also have "\<dots> = findings res'"
      using run' by (rule analyzeRules_Some(2) [symmetric])
    finally have f: "findings res = findings res'" .
    from assms have "length (map (\<lambda>r. r\<lparr>enabled := True\<rparr>) rs)
        = length (map (\<lambda>r. r\<lparr>enabled := True\<rparr>) rs')"
      by (rule arg_cong)
    then have l: "length rs = length rs'" by simp
    show ?thesis
      by (simp add: f l analyzeRules_Some(4) [OF run] analyzeRules_Some(4) [OF run']
          summarize_def)
  qed
  from both same show ?thesis by blast
qed

text \<open>
  The theorem at a rule open in its source, enabled and disabled: both runs return, the
  scoring findings are the same, and only the hygiene list tells the two apart.
\<close>

theorem findings_ignore_enabled_example:
  "withinLimits [baseRule\<lparr>source := ''any''\<rparr>]
   \<and> analyzeRules [baseRule\<lparr>source := ''any''\<rparr>] [smbSetting] \<noteq> None
   \<and> analyzeRules [baseRule\<lparr>source := ''any'', enabled := False\<rparr>] [smbSetting] \<noteq> None
   \<and> findings (the (analyzeRules [baseRule\<lparr>source := ''any''\<rparr>] [smbSetting]))
     = findings (the (analyzeRules [baseRule\<lparr>source := ''any'', enabled := False\<rparr>]
         [smbSetting]))
   \<and> map severity (findings (the (analyzeRules [baseRule\<lparr>source := ''any''\<rparr>] [smbSetting])))
     = [HIGH]
   \<and> map severity (hygiene (the (analyzeRules [baseRule\<lparr>source := ''any''\<rparr>] [smbSetting])))
     = []
   \<and> map severity (hygiene (the (analyzeRules [baseRule\<lparr>source := ''any'', enabled := False\<rparr>]
        [smbSetting]))) = [LOW]"
proof -
  let ?on = "[baseRule\<lparr>source := ''any''\<rparr>]"
  let ?off = "[baseRule\<lparr>source := ''any'', enabled := False\<rparr>]"
  have e: "map (\<lambda>r. r\<lparr>enabled := True\<rparr>) ?on = map (\<lambda>r. r\<lparr>enabled := True\<rparr>) ?off"
    by simp
  have w: "withinLimits ?on" by code_simp
  have v: "map severity (findings (the (analyzeRules ?on [smbSetting]))) = [HIGH]
   \<and> map severity (hygiene (the (analyzeRules ?on [smbSetting]))) = []
   \<and> map severity (hygiene (the (analyzeRules ?off [smbSetting]))) = [LOW]"
    by code_simp
  from findings_ignore_enabled [OF e, of "[smbSetting]" "the (analyzeRules ?on [smbSetting])"
      "the (analyzeRules ?off [smbSetting])"] w v
  show ?thesis by auto
qed

subsection \<open>Hygiene findings\<close>

lemma hygiene_by_kind:
  assumes "analyzeRules rs ps = Some res"
    and "\<And>i. i < length rs \<Longrightarrow> map g (filter P (ruleHygiene rs i)) = h i"
  shows "map g (filter P (hygiene res)) = concat (map h [0 ..< length rs])"
proof -
  have e: "map (\<lambda>i. map g (filter P (ruleHygiene rs i))) [0 ..< length rs]
      = map h [0 ..< length rs]"
    by (rule map_cong) (simp_all add: assms(2))
  have "hygiene res = allHygiene rs"
    using assms(1) by (rule analyzeRules_Some(3))
  then have "map g (filter P (hygiene res))
      = concat (map (\<lambda>i. map g (filter P (ruleHygiene rs i))) [0 ..< length rs])"
    by (simp add: allHygiene_def filter_concat map_concat comp_def)
  then show ?thesis by (simp only: e)
qed

lemma find_filter: "List.find Q xs = (case filter Q xs of [] \<Rightarrow> None | x # _ \<Rightarrow> Some x)"
  by (induction xs) simp_all

lemma find_map: "List.find Q (map f xs) = map_option f (List.find (\<lambda>x. Q (f x)) xs)"
  by (induction xs) simp_all

lemma find_take:
  assumes "i \<le> length rs"
  shows "List.find Q (take i rs) = map_option (\<lambda>j. rs ! j) (firstEarlier (\<lambda>j. Q (rs ! j)) i)"
proof -
  have t: "take i rs = map (\<lambda>j. rs ! j) [0 ..< i]"
    using assms by (intro nth_equalityI) simp_all
  show ?thesis
    unfolding firstEarlier_def find_filter [symmetric] t by (rule find_map)
qed

lemma conflicting_first:
  "i \<le> length rs \<Longrightarrow>
   conflicting rs i r = map_option (\<lambda>j. rs ! j) (firstEarlier (\<lambda>j. contradicts (rs ! j) r) i)"
  unfolding conflicting_def contradicts_def by (rule find_take)

lemma conflictPart_detail:
  "i \<le> length rs \<Longrightarrow> map detail (conflictPart rs i) = conflictExpected rs i"
  by (simp add: conflictPart_def conflicting_first conflictExpected_def conflictFinding_def
      detail_def split: option.splits)

lemma shadowPart_kind:
  "f \<in> set (shadowPart rs i) \<Longrightarrow> category f = Policy_Hygiene \<and> severity f = INFORMATIONAL"
  by (auto simp: shadowPart_def shadowingFinding_def split: option.splits if_splits)

lemma conflictPart_kind:
  "f \<in> set (conflictPart rs i) \<Longrightarrow> category f = Correlation_Error \<and> severity f = MEDIUM"
  by (auto simp: conflictPart_def conflictFinding_def split: option.splits if_splits)

lemma latentPart_kind:
  "f \<in> set (latentPart r) \<Longrightarrow> category f = Policy_Hygiene \<and> severity f = LOW"
  by (auto simp: latentPart_def latentRiskFinding_def split: if_splits)

lemma ruleHygiene_conflict:
  "filter (\<lambda>f. category f = Correlation_Error) (ruleHygiene rs i) = conflictPart rs i"
proof -
  let ?P = "\<lambda>f. category f = Correlation_Error"
  have "filter ?P (shadowPart rs i) = []"
    by (rule filter_none) (auto dest: shadowPart_kind)
  moreover have "filter ?P (conflictPart rs i) = conflictPart rs i"
    by (rule filter_all) (auto dest: conflictPart_kind)
  moreover have "filter ?P (latentPart (rs ! i)) = []"
    by (rule filter_none) (auto dest: latentPart_kind)
  ultimately show ?thesis by (simp add: ruleHygiene_def)
qed

lemma ruleHygiene_latent:
  "filter (\<lambda>f. severity f = LOW) (ruleHygiene rs i) = latentPart (rs ! i)"
proof -
  let ?P = "\<lambda>f. severity f = LOW"
  have "filter ?P (shadowPart rs i) = []"
    by (rule filter_none) (auto dest: shadowPart_kind)
  moreover have "filter ?P (conflictPart rs i) = []"
    by (rule filter_none) (auto dest: conflictPart_kind)
  moreover have "filter ?P (latentPart (rs ! i)) = latentPart (rs ! i)"
    by (rule filter_all) (auto dest: latentPart_kind)
  ultimately show ?thesis by (simp add: ruleHygiene_def)
qed

lemma latentPart_expected:
  "map (\<lambda>f. (ruleId f, category f, severity f, score f)) (latentPart r) = latentExpected r"
  by (simp add: latentPart_def latentExpected_def latentRiskFinding_def)

lemma conflict_findings:
  assumes "analyzeRules rs ps = Some res"
  shows "map detail (filter (\<lambda>f. category f = Correlation_Error) (hygiene res))
   = concat (map (conflictExpected rs) [0 ..< length rs])"
  using assms by (rule hygiene_by_kind) (simp add: ruleHygiene_conflict conflictPart_detail)

lemma latent_findings:
  assumes "analyzeRules rs ps = Some res"
  shows "map (\<lambda>f. (ruleId f, category f, severity f, score f))
      (filter (\<lambda>f. severity f = LOW) (hygiene res))
   = concat (map latentExpected rs)"
proof -
  have "map (\<lambda>f. (ruleId f, category f, severity f, score f))
      (filter (\<lambda>f. severity f = LOW) (hygiene res))
      = concat (map (\<lambda>i. latentExpected (rs ! i)) [0 ..< length rs])"
    using assms by (rule hygiene_by_kind) (simp add: ruleHygiene_latent latentPart_expected)
  also have "map (\<lambda>i. latentExpected (rs ! i)) [0 ..< length rs] = map latentExpected rs"
    by (rule nth_equalityI) simp_all
  finally show ?thesis .
qed

lemma firstEarlier_least:
  assumes "firstEarlier Q i = Some k"
  shows "Q k \<and> k < i \<and> (\<forall>m < k. \<not> Q m)"
proof -
  from assms obtain ks where f: "filter Q [0 ..< i] = k # ks"
    by (auto simp: firstEarlier_def split: list.splits)
  then obtain us vs where s: "[0 ..< i] = us @ k # vs" and n: "\<forall>u \<in> set us. \<not> Q u" and q: "Q k"
    by (auto simp: filter_eq_Cons_iff)
  have "k \<in> set [0 ..< i]" unfolding s by simp
  then have ki: "k < i" by simp
  have lu: "length us < i"
    using arg_cong [OF s, of length] by simp
  have "[0 ..< i] ! length us = k" unfolding s by simp
  with lu have len: "length us = k" by simp
  have "m \<in> set us" if "m < k" for m
  proof -
    from that len have "m < length us" by simp
    then have "us ! m = [0 ..< i] ! m" unfolding s by (simp add: nth_append)
    also have "\<dots> = m" using that ki by simp
    finally show ?thesis using \<open>m < length us\<close> by (metis nth_mem)
  qed
  with n q ki show ?thesis by blast
qed

lemma firstEarlier_exists:
  assumes "j < i" and "Q j"
  shows "\<exists>k \<le> j. firstEarlier Q i = Some k \<and> Q k"
proof -
  from assms have "j \<in> set (filter Q [0 ..< i])" by simp
  then obtain k ks where f: "filter Q [0 ..< i] = k # ks"
    by (cases "filter Q [0 ..< i]") auto
  then have s: "firstEarlier Q i = Some k" by (simp add: firstEarlier_def)
  from firstEarlier_least [OF s] assms have "k \<le> j"
    by (meson not_le)
  with s firstEarlier_least [OF s] show ?thesis by blast
qed

lemma firstEarlier_none: "firstEarlier Q i = None \<longleftrightarrow> (\<forall>j < i. \<not> Q j)"
proof -
  have "firstEarlier Q i = None \<longleftrightarrow> filter Q [0 ..< i] = []"
    by (simp add: firstEarlier_def split: list.splits)
  also have "\<dots> \<longleftrightarrow> (\<forall>j < i. \<not> Q j)"
    by (auto simp: filter_empty_conv)
  finally show ?thesis .
qed

lemma conflictExpected_nonempty:
  "(conflictExpected rs i \<noteq> []) = (enabled (rs ! i) \<and> (\<exists>j < i. contradicts (rs ! j) (rs ! i)))"
  using firstEarlier_none [of "\<lambda>j. contradicts (rs ! j) (rs ! i)" i]
  by (auto simp: conflictExpected_def split: option.splits)

text \<open>
  Claim C9. A run on rules within the limits of the parser and of the arrays returns, and
  in every run that returns the LOW hygiene findings are, rule by rule, exactly one Policy
  Hygiene finding of score 40 for every rule that is disabled, has the action ALLOW and
  has source scope 0 or the wildcard sentinel among its destination ports, and none for
  any other rule. A disabled ALLOW rule to any port gets the finding, the same rule enabled
  does not, and a disabled ALLOW rule with a single host as source and one port does not.
\<close>

theorem latent_risk_findings:
  "(withinLimits rs \<longrightarrow> analyzeRules rs ps \<noteq> None)
   \<and> (analyzeRules rs ps = Some res \<longrightarrow>
        map (\<lambda>f. (ruleId f, category f, severity f, score f))
          (filter (\<lambda>f. severity f = LOW) (hygiene res))
        = concat (map latentExpected rs))
   \<and> map_option (\<lambda>res. map (\<lambda>f. (ruleId f, category f, severity f, score f)) (hygiene res))
       (analyzeRules [baseRule\<lparr>enabled := False, destinationPort := ''any''\<rparr>] [])
     = Some [(''R'', Policy_Hygiene, LOW, 40)]
   \<and> map_option hygiene
       (analyzeRules [baseRule\<lparr>enabled := True, destinationPort := ''any''\<rparr>] []) = Some []
   \<and> map_option hygiene (analyzeRules [baseRule\<lparr>enabled := False\<rparr>] []) = Some []"
proof -
  have examples:
    "map_option (\<lambda>res. map (\<lambda>f. (ruleId f, category f, severity f, score f)) (hygiene res))
       (analyzeRules [baseRule\<lparr>enabled := False, destinationPort := ''any''\<rparr>] [])
     = Some [(''R'', Policy_Hygiene, LOW, 40)]
     \<and> map_option hygiene
         (analyzeRules [baseRule\<lparr>enabled := True, destinationPort := ''any''\<rparr>] []) = Some []
     \<and> map_option hygiene (analyzeRules [baseRule\<lparr>enabled := False\<rparr>] []) = Some []"
    by code_simp
  from analyzeRules_returns [of rs ps] latent_findings [of rs ps res] examples
  show ?thesis by blast
qed

text \<open>
  The theorem at a run of five rules, which are within the limits: the disabled rules A
  (any source) and E (the port text \<open>*\<close>) get the finding; B, disabled and narrow, C,
  enabled, and D, disabled with the port text \<open>80, any\<close>, whose parsed list is the port 80
  alone, get none.
\<close>

theorem latent_risk_findings_example:
  "withinLimits latentRules
   \<and> analyzeRules latentRules [] \<noteq> None
   \<and> map (\<lambda>f. (ruleId f, category f, severity f, score f))
       (filter (\<lambda>f. severity f = LOW) (hygiene (the (analyzeRules latentRules []))))
     = [(''A'', Policy_Hygiene, LOW, 40), (''E'', Policy_Hygiene, LOW, 40)]"
proof -
  have w: "withinLimits latentRules" by code_simp
  have e: "concat (map latentExpected latentRules)
      = [(''A'', Policy_Hygiene, LOW, 40), (''E'', Policy_Hygiene, LOW, 40)]"
    by code_simp
  from latent_risk_findings [of latentRules "[]" "the (analyzeRules latentRules [])"] w e
  show ?thesis by auto
qed

text \<open>
  Claim C1, as amended. A run on rules within the limits of the parser and of the arrays
  returns, and in every run that returns the Correlation Error findings (MEDIUM, score 50)
  are, index by index, one finding for the rule at index \<open>j\<close> exactly when that rule is
  enabled and some enabled rule at a lower index has a different action and textually
  identical source, destination and destination port; the finding names the id of the
  first such earlier rule. So of two rules in conflict the later one is flagged, naming
  the earlier one or a still earlier rule in conflict with it, and the earlier one is not
  flagged on account of the later. Two rules whose destination port texts differ in any
  character are not in conflict: on their own they give no Correlation Error finding.
\<close>

theorem conflict_flags_later_rule:
  "(withinLimits rs \<longrightarrow> analyzeRules rs ps \<noteq> None)
   \<and> (analyzeRules rs ps = Some res \<longrightarrow>
        map detail (filter (\<lambda>f. category f = Correlation_Error) (hygiene res))
        = concat (map (conflictExpected rs) [0 ..< length rs]))
   \<and> (conflictExpected rs j \<noteq> [])
     = (enabled (rs ! j) \<and> (\<exists>i < j. contradicts (rs ! i) (rs ! j)))
   \<and> (i < j \<and> enabled (rs ! j) \<and> contradicts (rs ! i) (rs ! j) \<longrightarrow>
        (\<exists>k \<le> i. contradicts (rs ! k) (rs ! j)
           \<and> conflictExpected rs j
             = [(id_rule (rs ! j), Correlation_Error, MEDIUM, 50,
                 CONFLICT_explanation @ '' A direct action conflict exists with Rule ID: ''
                 @ id_rule (rs ! k) @ ''.'')]))
   \<and> (destinationPort a \<noteq> destinationPort b \<and> analyzeRules [a, b] ps = Some pair \<longrightarrow>
        filter (\<lambda>f. category f = Correlation_Error) (hygiene pair) = [])"
proof -
  have later: "\<exists>k \<le> i. contradicts (rs ! k) (rs ! j)
           \<and> conflictExpected rs j
             = [(id_rule (rs ! j), Correlation_Error, MEDIUM, 50,
                 CONFLICT_explanation @ '' A direct action conflict exists with Rule ID: ''
                 @ id_rule (rs ! k) @ ''.'')]"
    if "i < j" "enabled (rs ! j)" "contradicts (rs ! i) (rs ! j)"
  proof -
    from firstEarlier_exists [where j = i and i = j and Q = "\<lambda>i. contradicts (rs ! i) (rs ! j)"] that
    obtain k where "k \<le> i" "firstEarlier (\<lambda>i. contradicts (rs ! i) (rs ! j)) j = Some k"
      "contradicts (rs ! k) (rs ! j)"
      by blast
    with that have "k \<le> i \<and> contradicts (rs ! k) (rs ! j)
           \<and> conflictExpected rs j
             = [(id_rule (rs ! j), Correlation_Error, MEDIUM, 50,
                 CONFLICT_explanation @ '' A direct action conflict exists with Rule ID: ''
                 @ id_rule (rs ! k) @ ''.'')]"
      by (simp add: conflictExpected_def)
    then show ?thesis by blast
  qed
  have differ: "filter (\<lambda>f. category f = Correlation_Error) (hygiene pair) = []"
    if "destinationPort a \<noteq> destinationPort b" and run: "analyzeRules [a, b] ps = Some pair"
  proof -
    have "firstEarlier (\<lambda>i. contradicts ([a, b] ! i) b) (Suc 0) = None"
      using that(1) by (simp add: firstEarlier_def contradicts_def)
    moreover have "firstEarlier (\<lambda>i. contradicts ([a, b] ! i) a) 0 = None"
      by (simp add: firstEarlier_def)
    ultimately have "concat (map (conflictExpected [a, b]) [0 ..< length [a, b]]) = []"
      by (simp add: conflictExpected_def)
    with conflict_findings [OF run] show ?thesis by simp
  qed
  from analyzeRules_returns [of rs ps] conflict_findings [of rs ps res]
    conflictExpected_nonempty [of rs j] later differ
  show ?thesis by blast
qed

text \<open>
  The theorem at the ALLOW rule A followed by the DENY rule D, a run within the limits:
  the finding is D's and names A; with a space added to the port text of D, the two are
  not in conflict.
\<close>

theorem conflict_flags_later_rule_example:
  "withinLimits [allowRule, denyRule]
   \<and> analyzeRules [allowRule, denyRule] [] \<noteq> None
   \<and> contradicts allowRule denyRule
   \<and> map detail (filter (\<lambda>f. category f = Correlation_Error)
       (hygiene (the (analyzeRules [allowRule, denyRule] []))))
     = [(''D'', Correlation_Error, MEDIUM, 50,
         CONFLICT_explanation @ '' A direct action conflict exists with Rule ID: A.'')]
   \<and> destinationPort allowRule \<noteq> destinationPort (denyRule\<lparr>destinationPort := ''443 ''\<rparr>)
   \<and> analyzeRules [allowRule, denyRule\<lparr>destinationPort := ''443 ''\<rparr>] [] \<noteq> None
   \<and> filter (\<lambda>f. category f = Correlation_Error)
       (hygiene (the (analyzeRules [allowRule, denyRule\<lparr>destinationPort := ''443 ''\<rparr>] [])))
     = []"
proof -
  let ?spaced = "[allowRule, denyRule\<lparr>destinationPort := ''443 ''\<rparr>]"
  have w: "withinLimits [allowRule, denyRule]" by code_simp
  have c: "contradicts allowRule denyRule" by code_simp
  have d: "destinationPort allowRule \<noteq> destinationPort (denyRule\<lparr>destinationPort := ''443 ''\<rparr>)"
    by (simp add: allowRule_def baseRule_def)
  have r: "analyzeRules ?spaced [] \<noteq> None" by code_simp
  then have s: "analyzeRules ?spaced [] = Some (the (analyzeRules ?spaced []))" by simp
  have e: "concat (map (conflictExpected [allowRule, denyRule]) [0 ..< length [allowRule, denyRule]])
      = [(''D'', Correlation_Error, MEDIUM, 50,
         CONFLICT_explanation @ '' A direct action conflict exists with Rule ID: A.'')]"
    by code_simp
  from conflict_flags_later_rule
    [where rs = "[allowRule, denyRule]" and ps = "[]" and j = 1 and i = 0 and a = allowRule
       and b = "denyRule\<lparr>destinationPort := ''443 ''\<rparr>"
       and res = "the (analyzeRules [allowRule, denyRule] [])"
       and pair = "the (analyzeRules ?spaced [])"]
    w d s
  have "analyzeRules [allowRule, denyRule] [] \<noteq> None"
    and "map detail (filter (\<lambda>f. category f = Correlation_Error)
       (hygiene (the (analyzeRules [allowRule, denyRule] []))))
     = concat (map (conflictExpected [allowRule, denyRule]) [0 ..< length [allowRule, denyRule]])"
    and "filter (\<lambda>f. category f = Correlation_Error)
       (hygiene (the (analyzeRules ?spaced []))) = []"
    by auto
  with w c d e r show ?thesis by simp
qed

text \<open>
  Claim C1 as it was stated fails for the earlier rule of the pair: the scan looks at the
  rules before the current one only, so the ALLOW rule in front of the DENY rule with the
  same source, destination and port gets no Correlation Error finding.
\<close>

theorem conflict_not_reported_for_earlier_rule:
  "enabled allowRule \<and> enabled denyRule \<and> action allowRule \<noteq> action denyRule
   \<and> source allowRule = source denyRule \<and> destination allowRule = destination denyRule
   \<and> destinationPort allowRule = destinationPort denyRule
   \<and> map_option (\<lambda>res. map (\<lambda>f. (ruleId f, category f)) (hygiene res))
       (analyzeRules [allowRule, denyRule] [])
     = Some [(''D'', Correlation_Error)]
   \<and> map_option (\<lambda>res. filter (\<lambda>f. category f = Correlation_Error \<and> ruleId f = id_rule allowRule)
       (hygiene res)) (analyzeRules [allowRule, denyRule] []) = Some []"
  by code_simp

text \<open>
  Claim C6 at the rules A and B of its own example, with the source of A written \<open>*\<close>
  instead of \<open>any\<close>. The scope parser reads \<open>*\<close> as scope 0, and the run scores A as open in
  source, destination and port (CRITICAL/100). A is enabled, comes first, has the action
  and protocol of B, the destination of B, and the port text \<open>any\<close>: it is equal or broader
  than B on every dimension. The run returns with an empty hygiene list all the same: B
  is not flagged. With the source spelled \<open>any\<close> (rule \<open>broadRule\<close>) B is flagged as eclipsed
  by A, and with the rules swapped nothing is flagged. The same happens for the sources
  \<open>all\<close> and \<open>0.0.0.0/0\<close>.
\<close>

theorem shadowing_misses_star_source:
  "getCidrSize (source starRule) = Finite 0
   \<and> enabled starRule \<and> enabled narrowRule \<and> action starRule = action narrowRule
   \<and> protocol starRule = protocol narrowRule
   \<and> toLowerCase (destination starRule) = ''any''
   \<and> toLowerCase (destinationPort starRule) = ''any''
   \<and> map_option (\<lambda>res. map brief (findings res)) (analyzeRules [starRule, narrowRule] [])
     = Some [(''A'', CRITICAL, 100), (''B'', HIGH, 80)]
   \<and> map_option hygiene (analyzeRules [starRule, narrowRule] []) = Some []
   \<and> map (\<lambda>s. map_option hygiene (analyzeRules [broadRule\<lparr>source := s\<rparr>, narrowRule] []))
       [''all'', ''0.0.0.0/0''] = [Some [], Some []]
   \<and> map_option (\<lambda>res. map detail (hygiene res)) (analyzeRules [broadRule, narrowRule] [])
     = Some [(''B'', Policy_Hygiene, INFORMATIONAL, 20,
         SHADOWING_explanation @ '' This specific rule is eclipsed by Rule ID: A.'')]
   \<and> map_option hygiene (analyzeRules [narrowRule, broadRule] []) = Some []"
  by code_simp

end
